theory Spec2Isabelle
  imports Complex_Main
begin

section \<open>The shared store\<close>

text \<open>
  The limiters keep all their state in a Redis-class store.  A key holds either a hash
  (the token bucket: fields \<open>tokens\<close> and \<open>last_refill\<close>) or a sorted set (the sliding
  window: members with a score), together with the time-to-live that the last
  \<open>EXPIRE\<close> gave it.  Expiry itself is the store's own and is not run here.

  Lua numbers and Python floats are taken as rationals, and arithmetic on them as exact.
  What the scripts print is modelled as printed: a reply through \<open>%.3f\<close> keeps three
  decimals, and the token count and the refill time, which the token-bucket script
  writes with \<open>tostring\<close>, keep the fourteen significant digits that Lua prints; a hash
  field holds the number that was printed.  The millisecond time stamps and scores of
  the sliding window are integers.
\<close>

type_synonym zset = "(string \<times> int) list"

datatype redis_value = Hash "(string \<times> rat) list" | ZSet zset

record entry =
  val :: redis_value
  ttl :: "int option"

type_synonym store = "string \<Rightarrow> entry option"

datatype exn =
    RedisError string
  | RuntimeError string
  | ZeroDivisionError string
  | HTTPException nat string

definition WRONGTYPE :: exn where
  "WRONGTYPE = RedisError ''WRONGTYPE Operation against a key holding the wrong kind of value''"

definition ARITH_ON_NIL :: exn where
  "ARITH_ON_NIL = RedisError ''attempt to perform arithmetic on a nil value''"

subsection \<open>Sorted-set commands\<close>

text \<open>\<open>ZREMRANGEBYSCORE key -inf mx\<close>: drops the members whose score is at most \<open>mx\<close>;
  a sorted set left empty is removed together with its key.\<close>

definition ZREMRANGEBYSCORE :: "string \<Rightarrow> int \<Rightarrow> store \<Rightarrow> exn + store" where
  "ZREMRANGEBYSCORE key mx s =
     (case s key of
        None \<Rightarrow> Inr s
      | Some e \<Rightarrow>
          (case val e of
             Hash h \<Rightarrow> Inl WRONGTYPE
           | ZSet z \<Rightarrow>
               (let z' = filter (\<lambda>p. mx < snd p) z
                in if z' = [] then Inr (s(key := None))
                   else Inr (s(key \<mapsto> e\<lparr>val := ZSet z'\<rparr>)))))"

definition ZCARD :: "string \<Rightarrow> store \<Rightarrow> exn + int" where
  "ZCARD key s =
     (case s key of
        None \<Rightarrow> Inr 0
      | Some e \<Rightarrow> (case val e of Hash h \<Rightarrow> Inl WRONGTYPE | ZSet z \<Rightarrow> Inr (int (length z))))"

text \<open>\<open>ZADD key score member\<close>: a member already present only has its score replaced.\<close>

fun zadd :: "string \<Rightarrow> int \<Rightarrow> zset \<Rightarrow> zset" where
  "zadd m sc [] = [(m, sc)]"
| "zadd m sc (p # ps) = (if fst p = m then (m, sc) # ps else p # zadd m sc ps)"

definition ZADD :: "string \<Rightarrow> int \<Rightarrow> string \<Rightarrow> store \<Rightarrow> exn + store" where
  "ZADD key score member s =
     (case s key of
        None \<Rightarrow> Inr (s(key \<mapsto> \<lparr>val = ZSet [(member, score)], ttl = None\<rparr>))
      | Some e \<Rightarrow>
          (case val e of
             Hash h \<Rightarrow> Inl WRONGTYPE
           | ZSet z \<Rightarrow> Inr (s(key \<mapsto> e\<lparr>val := ZSet (zadd member score z)\<rparr>))))"

text \<open>\<open>ZRANGE key 0 0 WITHSCORES\<close>: the member of least score, if any.  The scripts read
  only its score.\<close>

fun zfirst :: "zset \<Rightarrow> (string \<times> int) option" where
  "zfirst [] = None"
| "zfirst (p # ps) =
     (case zfirst ps of
        None \<Rightarrow> Some p
      | Some q \<Rightarrow> if snd p \<le> snd q then Some p else Some q)"

definition ZRANGE_0_0 :: "string \<Rightarrow> store \<Rightarrow> exn + (string \<times> int) option" where
  "ZRANGE_0_0 key s =
     (case s key of
        None \<Rightarrow> Inr None
      | Some e \<Rightarrow> (case val e of Hash h \<Rightarrow> Inl WRONGTYPE | ZSet z \<Rightarrow> Inr (zfirst z)))"

subsection \<open>Hash commands\<close>

text \<open>\<open>HMGET key f1 f2\<close>: the two fields, each absent (\<open>nil\<close>) when the key or the field
  is missing.\<close>

definition HMGET :: "string \<Rightarrow> string \<Rightarrow> string \<Rightarrow> store \<Rightarrow> exn + rat option \<times> rat option" where
  "HMGET key f1 f2 s =
     (case s key of
        None \<Rightarrow> Inr (None, None)
      | Some e \<Rightarrow>
          (case val e of
             Hash h \<Rightarrow> Inr (map_of h f1, map_of h f2)
           | ZSet z \<Rightarrow> Inl WRONGTYPE))"

fun hset :: "string \<Rightarrow> rat \<Rightarrow> (string \<times> rat) list \<Rightarrow> (string \<times> rat) list" where
  "hset f v [] = [(f, v)]"
| "hset f v (p # ps) = (if fst p = f then (f, v) # ps else p # hset f v ps)"

definition HSET :: "string \<Rightarrow> string \<Rightarrow> rat \<Rightarrow> string \<Rightarrow> rat \<Rightarrow> store \<Rightarrow> exn + store" where
  "HSET key f1 v1 f2 v2 s =
     (case s key of
        None \<Rightarrow> Inr (s(key \<mapsto> \<lparr>val = Hash (hset f2 v2 (hset f1 v1 [])), ttl = None\<rparr>))
      | Some e \<Rightarrow>
          (case val e of
             Hash h \<Rightarrow> Inr (s(key \<mapsto> e\<lparr>val := Hash (hset f2 v2 (hset f1 v1 h))\<rparr>))
           | ZSet z \<Rightarrow> Inl WRONGTYPE))"

subsection \<open>Keys\<close>

text \<open>\<open>EXPIRE key secs\<close>: does nothing on a missing key.\<close>

definition EXPIRE :: "string \<Rightarrow> int \<Rightarrow> store \<Rightarrow> store" where
  "EXPIRE key secs s =
     (case s key of None \<Rightarrow> s | Some e \<Rightarrow> s(key \<mapsto> e\<lparr>ttl := Some secs\<rparr>))"

text \<open>\<open>DEL key\<close>: the number of keys removed.\<close>

definition DEL :: "string \<Rightarrow> store \<Rightarrow> int \<times> store" where
  "DEL key s = (case s key of None \<Rightarrow> (0, s) | Some e \<Rightarrow> (1, s(key := None)))"

subsection \<open>Number formatting\<close>

text \<open>\<open>string.format("%.3f", x)\<close> followed by Python's \<open>float\<close>: the value rounded to
  three decimals, ties to even.  (A double next to a decimal tie may be printed the other
  way; no statement below rests on a tie.)\<close>

definition round_half_even :: "rat \<Rightarrow> int" where
  "round_half_even y =
     (let f = \<lfloor>y\<rfloor>; d = y - of_int f
      in if d < 1 / 2 then f
         else if 1 / 2 < d then f + 1
         else if even f then f else f + 1)"

definition fmt3 :: "rat \<Rightarrow> rat" where
  "fmt3 x = of_int (round_half_even (x * 1000)) / 1000"

text \<open>Python's \<open>int\<close> on a float, and the store's conversion of a Lua number to an
  integer reply: truncation towards zero.\<close>

definition trunc :: "rat \<Rightarrow> int" where
  "trunc x = (if 0 \<le> x then \<lfloor>x\<rfloor> else \<lceil>x\<rceil>)"

text \<open>Lua's \<open>tostring\<close> on a number prints it with \<open>%.14g\<close>: fourteen significant
  digits.  \<open>ndigits\<close> counts the decimal digits of a natural number, \<open>dec_exponent x\<close>
  is the decimal exponent of \<open>x\<close> (the \<open>e\<close> with \<open>10^e \<le> |x| < 10^(e+1)\<close>), and
  \<open>tostring_value x\<close> is the number that the printed text denotes, which is what
  \<open>tonumber\<close> reads back.\<close>

function ndigits :: "nat \<Rightarrow> nat" where
  "ndigits n = (if n < 10 then 1 else Suc (ndigits (n div 10)))"
  by pat_completeness auto
termination
  by (relation "measure id") auto

declare ndigits.simps [simp del]

definition dec_exponent :: "rat \<Rightarrow> int" where
  "dec_exponent x =
     (let a = \<bar>x\<bar>
      in if 1 \<le> a then int (ndigits (nat \<lfloor>a\<rfloor>)) - 1
         else - int (ndigits (nat (\<lceil>1 / a\<rceil> - 1))))"

definition tostring_value :: "rat \<Rightarrow> rat" where
  "tostring_value x =
     (let e = dec_exponent x
      in if e \<le> 13
         then of_int (round_half_even (x * 10 ^ nat (13 - e))) / 10 ^ nat (13 - e)
         else of_int (round_half_even (x / 10 ^ nat (e - 13))) * 10 ^ nat (e - 13))"

text \<open>Lua's \<open>tostring\<close> on an integral number of fewer than fifteen digits: its decimal
  digits.\<close>

function show_nat :: "nat \<Rightarrow> string" where
  "show_nat n =
     (if n < 10 then [''0123456789'' ! n]
      else show_nat (n div 10) @ [''0123456789'' ! (n mod 10)])"
  by pat_completeness auto
termination
  by (relation "measure id") auto

declare show_nat.simps [simp del]

definition tostring :: "int \<Rightarrow> string" where
  "tostring i = (if i < 0 then CHR ''-'' # show_nat (nat (- i)) else show_nat (nat i))"

section \<open>Sliding window log\<close>

text \<open>The reset time, which the check script and the status script compute in the same
  way: the time until the oldest entry leaves the window, or the whole window when no
  entry is stored.\<close>

definition sw_reset_in_seconds :: "string \<Rightarrow> int \<Rightarrow> int \<Rightarrow> store \<Rightarrow> exn + rat" where
  "sw_reset_in_seconds key window_seconds now s =
     (case ZRANGE_0_0 key s of
        Inl e \<Rightarrow> Inl e
      | Inr None \<Rightarrow> Inr (of_int window_seconds)
      | Inr (Some oldest) \<Rightarrow>
          (let oldest_time = snd oldest;
               reset_in_seconds = of_int ((oldest_time + window_seconds * 1000) - now) / 1000
           in Inr (if reset_in_seconds < 0 then 0 else reset_in_seconds)))"

definition SLIDING_WINDOW_LUA_SCRIPT ::
  "string \<Rightarrow> int \<Rightarrow> int \<Rightarrow> int \<Rightarrow> nat \<Rightarrow> store \<Rightarrow> (exn + int \<times> int \<times> rat \<times> rat) \<times> store" where
  "SLIDING_WINDOW_LUA_SCRIPT key limit window_seconds now rnd s0 =
     (let window_start = now - window_seconds * 1000
      in case ZREMRANGEBYSCORE key window_start s0 of
           Inl e \<Rightarrow> (Inl e, s0)
         | Inr s1 \<Rightarrow>
      (case ZCARD key s1 of
           Inl e \<Rightarrow> (Inl e, s1)
         | Inr current_count \<Rightarrow>
      (case (if current_count < limit then
               (let member = tostring now @ '':'' @ show_nat rnd
                in case ZADD key now member s1 of
                     Inl e \<Rightarrow> Inl e
                   | Inr s2 \<Rightarrow> Inr (1, limit - current_count - 1, 0, s2))
             else
               (case ZRANGE_0_0 key s1 of
                  Inl e \<Rightarrow> Inl e
                | Inr None \<Rightarrow> Inr (0, 0, 0, s1)
                | Inr (Some oldest) \<Rightarrow>
                    (let oldest_time = snd oldest;
                         retry_after = of_int ((oldest_time + window_seconds * 1000) - now) / 1000
                     in Inr (0, 0, if retry_after < 0 then 0 else retry_after, s1))))
       of
           Inl e \<Rightarrow> (Inl e, s1)
         | Inr (allowed, remaining, retry_after, s2) \<Rightarrow>
      (let s3 = EXPIRE key (window_seconds * 2) s2
       in case sw_reset_in_seconds key window_seconds now s3 of
            Inl e \<Rightarrow> (Inl e, s3)
          | Inr reset_in_seconds \<Rightarrow>
              (Inr (allowed, remaining, fmt3 reset_in_seconds, fmt3 retry_after), s3)))))"

definition SLIDING_WINDOW_STATUS_LUA_SCRIPT ::
  "string \<Rightarrow> int \<Rightarrow> int \<Rightarrow> int \<Rightarrow> store \<Rightarrow> (exn + int \<times> int \<times> rat) \<times> store" where
  "SLIDING_WINDOW_STATUS_LUA_SCRIPT key limit window_seconds now s0 =
     (let window_start = now - window_seconds * 1000
      in case ZREMRANGEBYSCORE key window_start s0 of
           Inl e \<Rightarrow> (Inl e, s0)
         | Inr s1 \<Rightarrow>
      (case ZCARD key s1 of
           Inl e \<Rightarrow> (Inl e, s1)
         | Inr current_count \<Rightarrow>
      (let remaining = max 0 (limit - current_count)
       in case sw_reset_in_seconds key window_seconds now s1 of
            Inl e \<Rightarrow> (Inl e, s1)
          | Inr reset_in_seconds \<Rightarrow>
              (Inr (current_count, remaining, fmt3 reset_in_seconds), s1))))"

section \<open>Token bucket\<close>

definition TOKEN_BUCKET_LUA_SCRIPT ::
  "string \<Rightarrow> rat \<Rightarrow> rat \<Rightarrow> rat \<Rightarrow> rat \<Rightarrow> store \<Rightarrow> (exn + int \<times> int \<times> rat \<times> rat) \<times> store" where
  "TOKEN_BUCKET_LUA_SCRIPT key max_tokens refill_rate now window_seconds s0 =
     (case HMGET key ''tokens'' ''last_refill'' s0 of
        Inl e \<Rightarrow> (Inl e, s0)
      | Inr (tokens0, last_refill0) \<Rightarrow>
     (case (case tokens0 of
              None \<Rightarrow> Some (max_tokens, now)
            | Some tk \<Rightarrow> (case last_refill0 of None \<Rightarrow> None | Some lr \<Rightarrow> Some (tk, lr)))
      of
        None \<Rightarrow> (Inl ARITH_ON_NIL, s0)
      | Some (tokens1, last_refill1) \<Rightarrow>
     (let time_passed = now - last_refill1;
          tokens_to_add = time_passed * refill_rate;
          tokens2 = min max_tokens (tokens1 + tokens_to_add);
          last_refill = now;
          allowed = (if 1 \<le> tokens2 then 1 else 0);
          tokens = (if 1 \<le> tokens2 then tokens2 - 1 else tokens2);
          remaining = \<lfloor>tokens\<rfloor>;
          tokens_needed = max_tokens - tokens;
          reset_in_seconds =
            (if 0 < tokens_needed \<and> 0 < refill_rate then tokens_needed / refill_rate else 0);
          retry_after =
            (if allowed = 0 \<and> 0 < refill_rate then (1 - tokens) / refill_rate else 0);
          ttl = \<lceil>window_seconds * 2\<rceil>
      in case HSET key ''tokens'' (tostring_value tokens)
                   ''last_refill'' (tostring_value last_refill) s0 of
           Inl e \<Rightarrow> (Inl e, s0)
         | Inr s1 \<Rightarrow>
             (Inr (allowed, remaining, fmt3 reset_in_seconds, fmt3 retry_after),
              EXPIRE key ttl s1))))"

definition TOKEN_BUCKET_STATUS_LUA_SCRIPT ::
  "string \<Rightarrow> rat \<Rightarrow> rat \<Rightarrow> rat \<Rightarrow> store \<Rightarrow> (exn + int \<times> int \<times> rat) \<times> store" where
  "TOKEN_BUCKET_STATUS_LUA_SCRIPT key max_tokens refill_rate now s0 =
     (case HMGET key ''tokens'' ''last_refill'' s0 of
        Inl e \<Rightarrow> (Inl e, s0)
      | Inr (None, last_refill0) \<Rightarrow> (Inr (0, trunc max_tokens, 0), s0)
      | Inr (Some tokens1, None) \<Rightarrow> (Inl ARITH_ON_NIL, s0)
      | Inr (Some tokens1, Some last_refill) \<Rightarrow>
     (let time_passed = now - last_refill;
          tokens_to_add = time_passed * refill_rate;
          tokens = min max_tokens (tokens1 + tokens_to_add);
          used = \<lfloor>max_tokens - tokens\<rfloor>;
          remaining = \<lfloor>tokens\<rfloor>;
          tokens_needed = max_tokens - tokens;
          reset_in_seconds =
            (if 0 < tokens_needed \<and> 0 < refill_rate then tokens_needed / refill_rate else 0)
      in (Inr (used, remaining, fmt3 reset_in_seconds), s0)))"

section \<open>The store client\<close>

text \<open>
  \<open>initialized\<close> says that \<open>connect\<close> has set the client handle; \<open>fault = Some m\<close> is a
  store that cannot be reached or does not answer in time, so that every command
  raises the store error \<open>m\<close>; \<open>data\<close> is the contents of the store.
\<close>

record redis_client =
  initialized :: bool
  fault :: "string option"
  data :: store

definition client :: "redis_client \<Rightarrow> exn + store" where
  "client rc =
     (if \<not> initialized rc
      then Inl (RuntimeError ''Redis client not initialized. Call connect() first.'')
      else case fault rc of Some m \<Rightarrow> Inl (RedisError m) | None \<Rightarrow> Inr (data rc))"

text \<open>The script arrives already applied to its keys and arguments.  The handler for
  store errors logs and raises again.\<close>

definition execute_lua_script ::
  "redis_client \<Rightarrow> (store \<Rightarrow> (exn + 'r) \<times> store) \<Rightarrow> (exn + 'r) \<times> redis_client" where
  "execute_lua_script rc script =
     (case client rc of
        Inl e \<Rightarrow> (Inl e, rc)
      | Inr s \<Rightarrow> (case script s of (r, s') \<Rightarrow> (r, rc\<lparr>data := s'\<rparr>)))"

definition delete_key :: "redis_client \<Rightarrow> string \<Rightarrow> (exn + bool) \<times> redis_client" where
  "delete_key rc key =
     (case client rc of
        Inl e \<Rightarrow> (Inl e, rc)
      | Inr s \<Rightarrow> (case DEL key s of (result, s') \<Rightarrow> (Inr (0 < result), rc\<lparr>data := s'\<rparr>)))"

section \<open>The sliding-window limiter\<close>

text \<open>The dictionary that \<open>get_status\<close> returns, with its three keys.\<close>

record status_dict =
  requests_used :: int
  remaining :: int
  reset_in_seconds :: rat

record SlidingWindowResult =
  allowed :: bool
  remaining :: int
  reset_in_seconds :: rat
  retry_after :: "rat option"

definition SlidingWindowLimiter_get_key :: "string \<Rightarrow> string" where
  "SlidingWindowLimiter_get_key identifier = ''sliding_window'' @ '':'' @ identifier"

text \<open>\<open>time\<close> is the reading of the clock and \<open>rnd\<close> the number that \<open>math.random\<close>
  draws inside the script.\<close>

definition SlidingWindowLimiter_check ::
  "redis_client \<Rightarrow> string \<Rightarrow> int \<Rightarrow> int \<Rightarrow> rat \<Rightarrow> nat \<Rightarrow>
     (exn + SlidingWindowResult) \<times> redis_client" where
  "SlidingWindowLimiter_check rc identifier limit window_seconds time rnd =
     (let key = SlidingWindowLimiter_get_key identifier;
          current_time_ms = trunc (time * 1000)
      in case execute_lua_script rc
                (SLIDING_WINDOW_LUA_SCRIPT key limit window_seconds current_time_ms rnd) of
           (Inl e, rc') \<Rightarrow> (Inl e, rc')
         | (Inr (a, r, reset, retry), rc') \<Rightarrow>
             (let allowed = (a \<noteq> 0)
              in (Inr \<lparr>SlidingWindowResult.allowed = allowed,
                       SlidingWindowResult.remaining = r,
                       SlidingWindowResult.reset_in_seconds = reset,
                       SlidingWindowResult.retry_after =
                         (if \<not> allowed then Some retry else None)\<rparr>, rc')))"

definition SlidingWindowLimiter_get_status ::
  "redis_client \<Rightarrow> string \<Rightarrow> int \<Rightarrow> int \<Rightarrow> rat \<Rightarrow> (exn + status_dict) \<times> redis_client" where
  "SlidingWindowLimiter_get_status rc identifier limit window_seconds time =
     (let key = SlidingWindowLimiter_get_key identifier;
          current_time_ms = trunc (time * 1000)
      in case execute_lua_script rc
                (SLIDING_WINDOW_STATUS_LUA_SCRIPT key limit window_seconds current_time_ms) of
           (Inl e, rc') \<Rightarrow> (Inl e, rc')
         | (Inr (used, r, reset), rc') \<Rightarrow>
             (Inr \<lparr>requests_used = used, status_dict.remaining = r,
                   status_dict.reset_in_seconds = reset\<rparr>, rc'))"

definition SlidingWindowLimiter_reset ::
  "redis_client \<Rightarrow> string \<Rightarrow> (exn + bool) \<times> redis_client" where
  "SlidingWindowLimiter_reset rc identifier =
     delete_key rc (SlidingWindowLimiter_get_key identifier)"

section \<open>The token-bucket limiter\<close>

record TokenBucketResult =
  allowed :: bool
  remaining :: int
  reset_in_seconds :: rat
  retry_after :: "rat option"

definition TokenBucketLimiter_get_key :: "string \<Rightarrow> string" where
  "TokenBucketLimiter_get_key identifier = ''token_bucket'' @ '':'' @ identifier"

text \<open>The refill rate is computed before the store is called, and a zero window raises
  there.\<close>

definition TokenBucketLimiter_check ::
  "redis_client \<Rightarrow> string \<Rightarrow> int \<Rightarrow> int \<Rightarrow> rat \<Rightarrow> (exn + TokenBucketResult) \<times> redis_client" where
  "TokenBucketLimiter_check rc identifier limit window_seconds current_time =
     (let key = TokenBucketLimiter_get_key identifier
      in if window_seconds = 0 then (Inl (ZeroDivisionError ''division by zero''), rc)
         else
           (let refill_rate = of_int limit / of_int window_seconds
            in case execute_lua_script rc
                      (TOKEN_BUCKET_LUA_SCRIPT key (of_int limit) refill_rate current_time
                         (of_int window_seconds)) of
                 (Inl e, rc') \<Rightarrow> (Inl e, rc')
               | (Inr (a, r, reset, retry), rc') \<Rightarrow>
                   (let allowed = (a \<noteq> 0)
                    in (Inr \<lparr>TokenBucketResult.allowed = allowed,
                             TokenBucketResult.remaining = r,
                             TokenBucketResult.reset_in_seconds = reset,
                             TokenBucketResult.retry_after =
                               (if \<not> allowed then Some retry else None)\<rparr>, rc'))))"

definition TokenBucketLimiter_get_status ::
  "redis_client \<Rightarrow> string \<Rightarrow> int \<Rightarrow> int \<Rightarrow> rat \<Rightarrow> (exn + status_dict) \<times> redis_client" where
  "TokenBucketLimiter_get_status rc identifier limit window_seconds current_time =
     (let key = TokenBucketLimiter_get_key identifier
      in if window_seconds = 0 then (Inl (ZeroDivisionError ''division by zero''), rc)
         else
           (let refill_rate = of_int limit / of_int window_seconds
            in case execute_lua_script rc
                      (TOKEN_BUCKET_STATUS_LUA_SCRIPT key (of_int limit) refill_rate
                         current_time) of
                 (Inl e, rc') \<Rightarrow> (Inl e, rc')
               | (Inr (used, r, reset), rc') \<Rightarrow>
                   (Inr \<lparr>requests_used = used, status_dict.remaining = r,
                         status_dict.reset_in_seconds = reset\<rparr>, rc')))"

definition TokenBucketLimiter_reset ::
  "redis_client \<Rightarrow> string \<Rightarrow> (exn + bool) \<times> redis_client" where
  "TokenBucketLimiter_reset rc identifier =
     delete_key rc (TokenBucketLimiter_get_key identifier)"

section \<open>The reset endpoint\<close>

datatype Algorithm = TOKEN_BUCKET | SLIDING_WINDOW

record RateLimitResetResponse =
  message :: string

text \<open>The body of the endpoint's \<open>try\<close>: the limiters selected are reset in turn and the
  number of those that held state is counted; an exception leaves at once.\<close>

definition reset_selected ::
  "redis_client \<Rightarrow> string \<Rightarrow> Algorithm option \<Rightarrow> (exn + nat) \<times> redis_client" where
  "reset_selected rc identifier algorithm =
     (case (if algorithm = None \<or> algorithm = Some TOKEN_BUCKET
            then (case TokenBucketLimiter_reset rc identifier of
                    (Inl e, rc1) \<Rightarrow> (Inl e, rc1)
                  | (Inr deleted, rc1) \<Rightarrow> (Inr (if deleted then 1 else 0), rc1))
            else (Inr 0, rc)) of
        (Inl e, rc1) \<Rightarrow> (Inl e, rc1)
      | (Inr reset_count, rc1) \<Rightarrow>
          (if algorithm = None \<or> algorithm = Some SLIDING_WINDOW
           then (case SlidingWindowLimiter_reset rc1 identifier of
                   (Inl e, rc2) \<Rightarrow> (Inl e, rc2)
                 | (Inr deleted, rc2) \<Rightarrow>
                     (Inr (if deleted then reset_count + 1 else reset_count), rc2))
           else (Inr reset_count, rc1)))"

definition reset_rate_limit ::
  "redis_client \<Rightarrow> string \<Rightarrow> Algorithm option \<Rightarrow> (exn + RateLimitResetResponse) \<times> redis_client" where
  "reset_rate_limit rc identifier algorithm =
     (case reset_selected rc identifier algorithm of
        (Inl (HTTPException code detail), rc') \<Rightarrow> (Inl (HTTPException code detail), rc')
      | (Inl (RedisError m), rc') \<Rightarrow> (Inl (RedisError m), rc')
      | (Inl e, rc') \<Rightarrow> (Inl (HTTPException 500 ''Reset failed''), rc')
      | (Inr reset_count, rc') \<Rightarrow>
          (if reset_count = 0 \<and> algorithm \<noteq> None
           then (Inl (HTTPException 404 (''No rate limit data found for '' @ identifier)), rc')
           else (Inr \<lparr>message = ''Rate limit reset for '' @ identifier\<rparr>, rc')))"

section \<open>Runs of calls\<close>

text \<open>The number of entries a key's sorted set holds: none when the key is missing.\<close>

definition entries :: "store \<Rightarrow> string \<Rightarrow> nat" where
  "entries s key =
     (case s key of
        None \<Rightarrow> 0
      | Some e \<Rightarrow> (case val e of Hash h \<Rightarrow> 0 | ZSet z \<Rightarrow> length z))"

definition stored_entries :: "redis_client \<Rightarrow> string \<Rightarrow> nat" where
  "stored_entries rc key = entries (data rc) key"

text \<open>A sequence of sliding-window checks under one limit, each call with its own
  identifier, window, clock reading and random draw: the client after each call.\<close>

fun sw_checks ::
  "redis_client \<Rightarrow> int \<Rightarrow> (string \<times> int \<times> rat \<times> nat) list \<Rightarrow> redis_client list" where
  "sw_checks rc limit [] = []"
| "sw_checks rc limit ((identifier, window_seconds, time, rnd) # calls) =
     (let rc' = snd (SlidingWindowLimiter_check rc identifier limit window_seconds time rnd)
      in rc' # sw_checks rc' limit calls)"

text \<open>A client that is connected to an empty store.\<close>

definition fresh_client :: redis_client where
  "fresh_client = \<lparr>initialized = True, fault = None, data = (\<lambda>k. None)\<rparr>"

text \<open>A connected client whose store holds one token bucket, for \<open>user_1\<close>.\<close>

definition bucket_client :: "rat \<Rightarrow> rat \<Rightarrow> redis_client" where
  "bucket_client tk lr =
     \<lparr>initialized = True, fault = None,
      data = (\<lambda>k. if k = ''token_bucket:user_1''
                   then Some \<lparr>val = Hash [(''tokens'', tk), (''last_refill'', lr)], ttl = Some 120\<rparr>
                   else None)\<rparr>"

text \<open>The store can be reached and answers.\<close>

definition available :: "redis_client \<Rightarrow> bool" where
  "available rc = (initialized rc \<and> fault rc = None)"

text \<open>What a caller sees of a check: nothing when it raised, else whether the request was
  allowed, how many remain, and the time to wait (absent when allowed).\<close>

definition tb_outcome :: "exn + TokenBucketResult \<Rightarrow> (bool \<times> int \<times> rat option) option" where
  "tb_outcome r =
     (case r of
        Inl e \<Rightarrow> None
      | Inr res \<Rightarrow> Some (TokenBucketResult.allowed res, TokenBucketResult.remaining res,
                         TokenBucketResult.retry_after res))"

definition sw_outcome :: "exn + SlidingWindowResult \<Rightarrow> (bool \<times> int \<times> rat option) option" where
  "sw_outcome r =
     (case r of
        Inl e \<Rightarrow> None
      | Inr res \<Rightarrow> Some (SlidingWindowResult.allowed res, SlidingWindowResult.remaining res,
                         SlidingWindowResult.retry_after res))"

text \<open>Consecutive token-bucket checks of one identifier at one clock reading: the client
  after \<open>k\<close> of them, and the result of the \<open>k\<close>-th.\<close>

fun tb_after :: "nat \<Rightarrow> redis_client \<Rightarrow> string \<Rightarrow> int \<Rightarrow> int \<Rightarrow> rat \<Rightarrow> redis_client" where
  "tb_after 0 rc identifier limit window_seconds time = rc"
| "tb_after (Suc k) rc identifier limit window_seconds time =
     snd (TokenBucketLimiter_check (tb_after k rc identifier limit window_seconds time)
            identifier limit window_seconds time)"

definition tb_kth ::
  "nat \<Rightarrow> redis_client \<Rightarrow> string \<Rightarrow> int \<Rightarrow> int \<Rightarrow> rat \<Rightarrow> exn + TokenBucketResult" where
  "tb_kth k rc identifier limit window_seconds time =
     fst (TokenBucketLimiter_check (tb_after (k - 1) rc identifier limit window_seconds time)
            identifier limit window_seconds time)"

text \<open>The number persisted in a field of a key's hash, if any.\<close>

definition stored_field :: "redis_client \<Rightarrow> string \<Rightarrow> string \<Rightarrow> rat option" where
  "stored_field rc key f =
     (case data rc key of
        None \<Rightarrow> None
      | Some e \<Rightarrow> (case val e of Hash h \<Rightarrow> map_of h f | ZSet z \<Rightarrow> None))"

text \<open>A client whose store fails every command with the error \<open>m\<close>.\<close>

definition failing_client :: "string \<Rightarrow> redis_client" where
  "failing_client m = \<lparr>initialized = True, fault = Some m, data = (\<lambda>k. None)\<rparr>"

section \<open>Sequences of check and status calls\<close>

text \<open>A call of the exposed check or status operation: the algorithm selected, the
  identifier, the limit, the window and the clock reading, and for a check the random
  draw of the sliding-window script.  A run returns the results of its checks, in
  order; what a status call returns is not part of it.\<close>

datatype call =
    Check Algorithm string int int rat nat
  | Status Algorithm string int int rat

datatype check_result =
    BucketResult "exn + TokenBucketResult"
  | WindowResult "exn + SlidingWindowResult"

fun run :: "redis_client \<Rightarrow> call list \<Rightarrow> check_result list" where
  "run rc [] = []"
| "run rc (Check algorithm identifier limit window_seconds time rnd # calls) =
     (if algorithm = TOKEN_BUCKET
      then (case TokenBucketLimiter_check rc identifier limit window_seconds time of
              (r, rc') \<Rightarrow> BucketResult r # run rc' calls)
      else (case SlidingWindowLimiter_check rc identifier limit window_seconds time rnd of
              (r, rc') \<Rightarrow> WindowResult r # run rc' calls))"
| "run rc (Status algorithm identifier limit window_seconds time # calls) =
     (if algorithm = TOKEN_BUCKET
      then run (snd (TokenBucketLimiter_get_status rc identifier limit window_seconds time)) calls
      else run (snd (SlidingWindowLimiter_get_status rc identifier limit window_seconds time))
             calls)"

text \<open>What pruning at \<open>c\<close> leaves of a key.\<close>

definition prune_entry :: "int \<Rightarrow> entry option \<Rightarrow> entry option" where
  "prune_entry c eo =
     (case eo of
        None \<Rightarrow> None
      | Some e \<Rightarrow>
          (case val e of
             Hash h \<Rightarrow> Some e
           | ZSet z \<Rightarrow>
               (if filter (\<lambda>p. c < snd p) z = [] then None
                else Some (e\<lparr>val := ZSet (filter (\<lambda>p. c < snd p) z)\<rparr>))))"

section \<open>The sliding window stores at most \<open>limit\<close> entries\<close>

lemma zadd_length: "length (zadd m sc z) \<le> Suc (length z)"
  by (induction z) auto

lemma entries_ZREMRANGEBYSCORE:
  "ZREMRANGEBYSCORE key mx s = Inr s' \<Longrightarrow> entries s' k \<le> entries s k"
  by (auto simp: ZREMRANGEBYSCORE_def entries_def Let_def
           split: option.splits redis_value.splits if_splits)

lemma entries_ZADD:
  "ZADD key sc m s = Inr s' \<Longrightarrow>
     entries s' k \<le> (if k = key then Suc (entries s key) else entries s k)"
  using zadd_length
  by (auto simp: ZADD_def entries_def split: option.splits redis_value.splits if_splits)

lemma entries_EXPIRE: "entries (EXPIRE key secs s) k = entries s k"
  by (auto simp: EXPIRE_def entries_def split: option.splits)

lemma ZCARD_entries: "ZCARD key s = Inr c \<Longrightarrow> c = int (entries s key)"
  by (auto simp: ZCARD_def entries_def split: option.splits redis_value.splits)

lemma entries_script:
  assumes "int (entries s0 k) \<le> limit"
  shows "int (entries (snd (SLIDING_WINDOW_LUA_SCRIPT key limit w now rnd s0)) k) \<le> limit"
proof (cases "ZREMRANGEBYSCORE key (now - w * 1000) s0")
  case (Inl e)
  then show ?thesis using assms by (simp add: SLIDING_WINDOW_LUA_SCRIPT_def)
next
  case (Inr s1)
  have s1: "int (entries s1 k) \<le> limit"
    using entries_ZREMRANGEBYSCORE[OF Inr, of k] assms by simp
  show ?thesis
  proof (cases "ZCARD key s1")
    case (Inl e)
    then show ?thesis using Inr s1 by (simp add: SLIDING_WINDOW_LUA_SCRIPT_def)
  next
    case c: (Inr c)
    have ceq: "c = int (entries s1 key)" using ZCARD_entries[OF c] .
    show ?thesis
    proof (cases "c < limit")
      case True
      show ?thesis
      proof (cases "ZADD key now (tostring now @ '':'' @ show_nat rnd) s1")
        case (Inl e)
        then show ?thesis using Inr c True s1 by (simp add: SLIDING_WINDOW_LUA_SCRIPT_def)
      next
        case z: (Inr s2)
        have "int (entries s2 k) \<le> limit"
          using entries_ZADD[OF z, of k] s1 True ceq by (auto split: if_splits)
        then show ?thesis using Inr c True z
          by (auto simp: SLIDING_WINDOW_LUA_SCRIPT_def Let_def entries_EXPIRE split: sum.splits)
      qed
    next
      case False
      then show ?thesis using Inr c s1
        by (auto simp: SLIDING_WINDOW_LUA_SCRIPT_def Let_def entries_EXPIRE
                 split: sum.splits option.splits)
    qed
  qed
qed

lemma stored_entries_check:
  assumes "int (stored_entries rc k) \<le> limit"
  shows "int (stored_entries
                (snd (SlidingWindowLimiter_check rc identifier limit w t rnd)) k) \<le> limit"
proof (cases "client rc")
  case (Inl e)
  then show ?thesis using assms
    by (simp add: SlidingWindowLimiter_check_def execute_lua_script_def)
next
  case (Inr s)
  then have s: "s = data rc" by (auto simp: client_def split: if_splits option.splits)
  let ?key = "SlidingWindowLimiter_get_key identifier"
  let ?now = "trunc (t * 1000)"
  have "int (entries (snd (SLIDING_WINDOW_LUA_SCRIPT ?key limit w ?now rnd s)) k) \<le> limit"
    using entries_script assms s by (simp add: stored_entries_def)
  then show ?thesis using Inr
    by (auto simp: SlidingWindowLimiter_check_def execute_lua_script_def stored_entries_def
                   Let_def split: prod.splits sum.splits)
qed

text \<open>
  C1.  Take any identifier whose key holds at most \<open>limit\<close> entries (none, for a key
  never seen), and any sequence of sliding-window checks with that limit, for this or
  any other identifier, at any clock readings, with any windows and any random draws,
  against a store that answers or fails.  After each check the key's sorted set holds
  at most \<open>limit\<close> entries.
\<close>

theorem sliding_window_size_bound:
  assumes "int (stored_entries rc (SlidingWindowLimiter_get_key identifier)) \<le> limit"
  shows "\<forall>rc' \<in> set (sw_checks rc limit calls).
           int (stored_entries rc' (SlidingWindowLimiter_get_key identifier)) \<le> limit"
  using assms
proof (induction calls arbitrary: rc)
  case Nil
  then show ?case by simp
next
  case (Cons c calls)
  obtain i w t rnd where c: "c = (i, w, t, rnd)" by (cases c) auto
  show ?case
    using Cons.IH[OF stored_entries_check[OF Cons.prems]] stored_entries_check[OF Cons.prems]
    by (simp add: c Let_def)
qed

theorem sliding_window_size_bound_witness:
  "int (stored_entries fresh_client (SlidingWindowLimiter_get_key ''user_1'')) \<le> 2 \<and>
   list_all (\<lambda>rc'. int (stored_entries rc' (SlidingWindowLimiter_get_key ''user_1'')) \<le> 2)
     (sw_checks fresh_client 2
        [(''user_1'', 60, 100, 7), (''user_1'', 60, 101, 8), (''user_1'', 60, 102, 9)])"
  using sliding_window_size_bound
          [of fresh_client "''user_1''" 2
              "[(''user_1'', 60, 100, 7), (''user_1'', 60, 101, 8), (''user_1'', 60, 102, 9)]"]
  by (simp add: stored_entries_def entries_def fresh_client_def list_all_iff)

section \<open>Rounding, and the token-bucket script step by step\<close>

lemma round_half_even_of_int [simp]: "round_half_even (of_int n) = n"
  by (simp add: round_half_even_def)

lemma round_half_even_mono: "x \<le> y \<Longrightarrow> round_half_even x \<le> round_half_even y"
proof -
  assume xy: "x \<le> y"
  have fl: "\<lfloor>x\<rfloor> \<le> \<lfloor>y\<rfloor>" using xy by (rule floor_mono)
  have ub: "round_half_even x \<le> \<lfloor>x\<rfloor> + 1" by (simp add: round_half_even_def Let_def)
  have lb: "\<lfloor>y\<rfloor> \<le> round_half_even y" by (simp add: round_half_even_def Let_def)
  show ?thesis
  proof (cases "\<lfloor>x\<rfloor> < \<lfloor>y\<rfloor>")
    case True
    then show ?thesis using ub lb by linarith
  next
    case False
    then have eq: "\<lfloor>x\<rfloor> = \<lfloor>y\<rfloor>" using fl by simp
    then show ?thesis using xy by (auto simp: round_half_even_def Let_def)
  qed
qed

lemma fmt3_mono: "x \<le> y \<Longrightarrow> fmt3 x \<le> fmt3 y"
  unfolding fmt3_def
  by (intro divide_right_mono) (auto intro!: round_half_even_mono)

lemma fmt3_0 [simp]: "fmt3 0 = 0"
  by (simp add: fmt3_def round_half_even_def)

lemma fmt3_of_int [simp]: "fmt3 (of_int n) = of_int n"
proof -
  have "(of_int n :: rat) * 1000 = of_int (n * 1000)" by simp
  then have "round_half_even (of_int n * 1000) = n * 1000"
    using round_half_even_of_int by metis
  then show ?thesis by (simp add: fmt3_def)
qed

lemma fmt3_pos: "1 / 2000 < x \<Longrightarrow> 0 < fmt3 x"
proof -
  assume "1 / 2000 < x"
  then have h: "1 / 2 < x * 1000" by simp
  have "1 \<le> round_half_even (x * 1000)"
  proof (cases "1 \<le> \<lfloor>x * 1000\<rfloor>")
    case True
    then show ?thesis by (simp add: round_half_even_def Let_def)
  next
    case False
    moreover have "0 \<le> \<lfloor>x * 1000\<rfloor>" using h by simp
    ultimately have "\<lfloor>x * 1000\<rfloor> = 0" by linarith
    then show ?thesis using h by (simp add: round_half_even_def Let_def)
  qed
  then show ?thesis by (simp add: fmt3_def)
qed

lemma fmt3_small: "0 \<le> x \<Longrightarrow> x < 1 / 2000 \<Longrightarrow> fmt3 x = 0"
proof -
  assume a: "0 \<le> x" "x < 1 / 2000"
  then have h: "0 \<le> x * 1000" "x * 1000 < 1 / 2" by simp_all
  then have "\<lfloor>x * 1000\<rfloor> = 0" by (simp add: floor_eq_iff)
  then show ?thesis using h by (simp add: fmt3_def round_half_even_def Let_def)
qed

lemma ndigits_le: "n < 10 ^ k \<Longrightarrow> 1 \<le> k \<Longrightarrow> ndigits n \<le> k"
proof (induction k arbitrary: n)
  case 0
  then show ?case by simp
next
  case (Suc k)
  show ?case
  proof (cases "n < 10")
    case True
    then show ?thesis by (simp add: ndigits.simps[of n])
  next
    case False
    then have k1: "1 \<le> k" using Suc.prems by (cases k) auto
    have "n div 10 < 10 ^ k" using Suc.prems by (simp add: less_mult_imp_div_less mult.commute)
    from Suc.IH[OF this k1] show ?thesis using False by (simp add: ndigits.simps[of n])
  qed
qed

lemma ndigits_pos: "1 \<le> ndigits n"
  by (simp add: ndigits.simps[of n])

lemma tostring_value_of_int:
  assumes "\<bar>n\<bar> < 10 ^ 14"
  shows "tostring_value (of_int n) = of_int n"
proof -
  have e: "dec_exponent (of_int n) \<le> 13"
  proof (cases "n = 0")
    case True
    then show ?thesis by (simp add: dec_exponent_def ndigits.simps[of 0])
  next
    case False
    then have a: "(1::rat) \<le> \<bar>of_int n\<bar>"
      by (metis abs_ge_zero of_int_abs of_int_1_le_iff zero_less_abs_iff int_one_le_iff_zero_less)
    have fl: "\<lfloor>\<bar>of_int n :: rat\<bar>\<rfloor> = \<bar>n\<bar>" by (metis floor_of_int of_int_abs)
    have "nat \<bar>n\<bar> < 10 ^ 14" using assms by (simp add: nat_less_iff)
    then have "ndigits (nat \<bar>n\<bar>) \<le> 14" by (rule ndigits_le) simp
    then show ?thesis using a fl by (simp add: dec_exponent_def)
  qed
  define j where "j = nat (13 - dec_exponent (of_int n))"
  have "(of_int n :: rat) * 10 ^ j = of_int (n * 10 ^ j)" by simp
  then have "round_half_even (of_int n * 10 ^ j) = n * 10 ^ j"
    by (metis round_half_even_of_int)
  then show ?thesis using e by (simp add: tostring_value_def j_def)
qed

lemma ndigits_eq: "10 ^ k \<le> n \<Longrightarrow> n < 10 ^ Suc k \<Longrightarrow> ndigits n = Suc k"
proof (induction k arbitrary: n)
  case 0
  then show ?case by (simp add: ndigits.simps[of n])
next
  case (Suc k)
  have n10: "\<not> n < 10"
  proof -
    have "(1::nat) \<le> 10 ^ k" by simp
    then have t: "(10::nat) \<le> 10 * 10 ^ k" by linarith
    have p: "10 * 10 ^ k \<le> n" using Suc.prems(1) by simp
    show ?thesis using t p by linarith
  qed
  have lo: "10 ^ k \<le> n div 10" using Suc.prems(1) by (simp add: less_eq_div_iff_mult_less_eq mult.commute)
  have hi: "n div 10 < 10 ^ Suc k" using Suc.prems(2) by (simp add: less_mult_imp_div_less mult.commute)
  from Suc.IH[OF lo hi] show ?case using n10 by (simp add: ndigits.simps[of n])
qed

lemma dec_exponent_big:
  assumes "10 ^ k \<le> \<bar>x\<bar>" "\<bar>x\<bar> < 10 ^ Suc k"
  shows "dec_exponent x = int k"
proof -
  have a1: "1 \<le> \<bar>x\<bar>"
  proof -
    have "(1::rat) \<le> 10 ^ k" by simp
    then show ?thesis using assms(1) by linarith
  qed
  have "(of_int (10 ^ k) :: rat) \<le> \<bar>x\<bar>" using assms(1) by simp
  then have "(10::int) ^ k \<le> \<lfloor>\<bar>x\<bar>\<rfloor>" by (simp only: le_floor_iff)
  then have lo: "10 ^ k \<le> nat \<lfloor>\<bar>x\<bar>\<rfloor>" by (simp add: le_nat_iff)
  have "\<bar>x\<bar> < of_int (10 ^ Suc k)" using assms(2) by simp
  then have "\<lfloor>\<bar>x\<bar>\<rfloor> < (10::int) ^ Suc k" by (simp only: floor_less_iff)
  then have hi: "nat \<lfloor>\<bar>x\<bar>\<rfloor> < 10 ^ Suc k" by (simp add: nat_less_iff)
  show ?thesis using ndigits_eq[OF lo hi] a1 by (simp add: dec_exponent_def)
qed

lemma dec_exponent_small:
  assumes "0 < \<bar>x\<bar>" "1 \<le> \<bar>x\<bar> * 10 ^ Suc k" "\<bar>x\<bar> * 10 ^ k < 1"
  shows "dec_exponent x = - int (Suc k)"
proof -
  let ?y = "1 / \<bar>x\<bar>"
  have a1: "\<not> 1 \<le> \<bar>x\<bar>"
  proof
    assume "1 \<le> \<bar>x\<bar>"
    moreover have "(1::rat) \<le> 10 ^ k" by simp
    ultimately have "1 * 1 \<le> \<bar>x\<bar> * 10 ^ k" by (intro mult_mono) simp_all
    then show False using assms(3) by simp
  qed
  have ylo: "(10::rat) ^ k < ?y" using assms(1,3) by (simp add: field_simps)
  have yhi: "?y \<le> 10 ^ Suc k" using assms(1,2) by (simp add: field_simps)
  have "(of_int (10 ^ k) :: rat) < ?y" using ylo by simp
  then have "(10::int) ^ k < \<lceil>?y\<rceil>" by (simp only: less_ceiling_iff)
  then have lo: "10 ^ k \<le> nat (\<lceil>?y\<rceil> - 1)" by (simp add: le_nat_iff)
  have "?y \<le> of_int (10 ^ Suc k)" using yhi by simp
  then have "\<lceil>?y\<rceil> \<le> (10::int) ^ Suc k" by (simp only: ceiling_le_iff)
  moreover have "(0::int) < 10 ^ Suc k" by simp
  ultimately have "(0::int) < 10 ^ Suc k \<and> \<lceil>?y\<rceil> - 1 < (10::int) ^ Suc k" by linarith
  then have "nat (\<lceil>?y\<rceil> - 1) < nat ((10::int) ^ Suc k)" by (simp only: zless_nat_conj)
  moreover have "nat ((10::int) ^ Suc k) = (10::nat) ^ Suc k"
  proof -
    have "(10::int) ^ Suc k = int (10 ^ Suc k)" by simp
    then show ?thesis by (simp only: nat_int)
  qed
  ultimately have hi: "nat (\<lceil>?y\<rceil> - 1) < 10 ^ Suc k" by (simp only:)
  show ?thesis using ndigits_eq[OF lo hi] a1 by (simp add: dec_exponent_def)
qed

lemma round_half_even_near:
  assumes "\<bar>y - of_int m\<bar> < 1 / 2"
  shows "round_half_even y = m"
proof (cases "of_int m \<le> y")
  case True
  then have "\<lfloor>y\<rfloor> = m" using assms by (simp add: floor_eq_iff abs_less_iff)
  then show ?thesis using assms True by (simp add: round_half_even_def Let_def abs_less_iff)
next
  case False
  then have "\<lfloor>y\<rfloor> = m - 1" using assms by (simp add: floor_eq_iff abs_less_iff)
  then show ?thesis using assms False
    by (simp add: round_half_even_def Let_def abs_less_iff)
qed

lemma tostring_value_clock: "tostring_value (17300000001234567 / 10000000) = 17300000001235 / 10000"
proof -
  have e: "dec_exponent (17300000001234567 / 10000000) = int 9"
    by (rule dec_exponent_big) simp_all
  have r: "round_half_even (17300000001234567 / 10000000 * 10 ^ 4) = 17300000001235"
    by (rule round_half_even_near) simp
  show ?thesis using e r by (simp add: tostring_value_def)
qed

lemma tostring_value_negative: "tostring_value (- 433 / 600000000) = - 72166666666667 / 10 ^ 20"
proof -
  have e: "dec_exponent (- 433 / 600000000) = - int (Suc 6)"
    by (rule dec_exponent_small) simp_all
  have r: "round_half_even (- 433 / 600000000 * 10 ^ 20) = - 72166666666667"
    by (rule round_half_even_near) simp
  show ?thesis using e r by (simp add: tostring_value_def)
qed

lemma tostring_value_15_digits: "tostring_value 100000000000001 = 100000000000000"
proof -
  have e: "dec_exponent 100000000000001 = int 14"
    by (rule dec_exponent_big) simp_all
  have r: "round_half_even (100000000000001 / 10 ^ 1) = 10000000000000"
    by (rule round_half_even_near) simp
  show ?thesis using e r by (simp add: tostring_value_def)
qed

lemma map_of_hset: "map_of (hset f v h) f' = (if f' = f then Some v else map_of h f')"
  by (induction h) auto

lemma tb_script_fresh:
  assumes "s key = None" "1 \<le> C" "0 < r"
  shows "fst (TOKEN_BUCKET_LUA_SCRIPT key C r now w s) = Inr (1, \<lfloor>C - 1\<rfloor>, fmt3 (1 / r), 0)"
    and "HMGET key ''tokens'' ''last_refill'' (snd (TOKEN_BUCKET_LUA_SCRIPT key C r now w s))
           = Inr (Some (tostring_value (C - 1)), Some (tostring_value now))"
  using assms
  by (simp_all add: TOKEN_BUCKET_LUA_SCRIPT_def HMGET_def HSET_def EXPIRE_def Let_def)

lemma HMGET_Some:
  assumes "HMGET key f1 f2 s = Inr (Some a, b)"
  obtains e h where "s key = Some e" "val e = Hash h" "map_of h f1 = Some a" "map_of h f2 = b"
  using assms by (auto simp: HMGET_def split: option.splits redis_value.splits)

text \<open>The script on a bucket that holds \<open>tk\<close> tokens, last refilled at \<open>lr\<close>.\<close>

lemma tb_script_known:
  assumes "HMGET key ''tokens'' ''last_refill'' s = Inr (Some tk, Some lr)"
  shows "fst (TOKEN_BUCKET_LUA_SCRIPT key C r now w s) =
           Inr (let tokens2 = min C (tk + (now - lr) * r);
                    tokens = (if 1 \<le> tokens2 then tokens2 - 1 else tokens2)
                in ((if 1 \<le> tokens2 then 1 else 0), \<lfloor>tokens\<rfloor>,
                    fmt3 (if 0 < C - tokens \<and> 0 < r then (C - tokens) / r else 0),
                    fmt3 (if \<not> 1 \<le> tokens2 \<and> 0 < r then (1 - tokens) / r else 0)))"
    and "HMGET key ''tokens'' ''last_refill'' (snd (TOKEN_BUCKET_LUA_SCRIPT key C r now w s))
           = Inr (Some (tostring_value
                          (let tokens2 = min C (tk + (now - lr) * r)
                           in if 1 \<le> tokens2 then tokens2 - 1 else tokens2)),
                  Some (tostring_value now))"
proof -
  obtain e h where s: "s key = Some e" "val e = Hash h" "map_of h ''tokens'' = Some tk"
      "map_of h ''last_refill'' = Some lr"
    using assms by (rule HMGET_Some)
  have hs: "HSET key f1 v1 f2 v2 s = Inr (s(key \<mapsto> e\<lparr>val := Hash (hset f2 v2 (hset f1 v1 h))\<rparr>))"
    for f1 v1 f2 v2
    using s by (simp add: HSET_def)
  show "fst (TOKEN_BUCKET_LUA_SCRIPT key C r now w s) =
           Inr (let tokens2 = min C (tk + (now - lr) * r);
                    tokens = (if 1 \<le> tokens2 then tokens2 - 1 else tokens2)
                in ((if 1 \<le> tokens2 then 1 else 0), \<lfloor>tokens\<rfloor>,
                    fmt3 (if 0 < C - tokens \<and> 0 < r then (C - tokens) / r else 0),
                    fmt3 (if \<not> 1 \<le> tokens2 \<and> 0 < r then (1 - tokens) / r else 0)))"
    unfolding TOKEN_BUCKET_LUA_SCRIPT_def assms Let_def hs
    by simp
  show "HMGET key ''tokens'' ''last_refill'' (snd (TOKEN_BUCKET_LUA_SCRIPT key C r now w s))
           = Inr (Some (tostring_value
                          (let tokens2 = min C (tk + (now - lr) * r)
                           in if 1 \<le> tokens2 then tokens2 - 1 else tokens2)),
                  Some (tostring_value now))"
    unfolding TOKEN_BUCKET_LUA_SCRIPT_def assms Let_def hs
    by (simp add: HMGET_def EXPIRE_def map_of_hset)
qed

lemma tb_script_allowed:
  assumes "HMGET key ''tokens'' ''last_refill'' s = Inr (Some tk, Some now)" "tk \<le> C" "0 < r" "1 \<le> tk"
  shows "fst (TOKEN_BUCKET_LUA_SCRIPT key C r now w s) =
           Inr (1, \<lfloor>tk - 1\<rfloor>, fmt3 ((C - (tk - 1)) / r), 0)"
    and "HMGET key ''tokens'' ''last_refill'' (snd (TOKEN_BUCKET_LUA_SCRIPT key C r now w s))
           = Inr (Some (tostring_value (tk - 1)), Some (tostring_value now))"
  using assms tb_script_known[OF assms(1), of C r now w]
  by (simp_all add: Let_def min_def)

lemma tb_script_denied:
  assumes "HMGET key ''tokens'' ''last_refill'' s = Inr (Some tk, Some now)" "tk \<le> C" "0 < r" "tk < 1" "1 \<le> C"
  shows "fst (TOKEN_BUCKET_LUA_SCRIPT key C r now w s) =
           Inr (0, \<lfloor>tk\<rfloor>, fmt3 ((C - tk) / r), fmt3 ((1 - tk) / r))"
    and "HMGET key ''tokens'' ''last_refill'' (snd (TOKEN_BUCKET_LUA_SCRIPT key C r now w s))
           = Inr (Some (tostring_value tk), Some (tostring_value now))"
  using assms tb_script_known[OF assms(1), of C r now w]
  by (simp_all add: Let_def min_def)

lemma client_available: "available rc \<Longrightarrow> client rc = Inr (data rc)"
  by (simp add: available_def client_def)

lemma tb_check_data:
  assumes "available rc" "w \<noteq> 0"
  shows "data (snd (TokenBucketLimiter_check rc i l w t)) =
           snd (TOKEN_BUCKET_LUA_SCRIPT (TokenBucketLimiter_get_key i) (of_int l)
                  (of_int l / of_int w) t (of_int w) (data rc))"
  using assms
  by (auto simp: TokenBucketLimiter_check_def execute_lua_script_def client_available Let_def
           split: prod.splits sum.splits)

lemma tb_check_available:
  "available (snd (TokenBucketLimiter_check rc i l w t)) = available rc"
  by (auto simp: TokenBucketLimiter_check_def execute_lua_script_def available_def Let_def
           split: prod.splits sum.splits)

lemma tb_check_result:
  assumes "available rc" "w \<noteq> 0"
    and "fst (TOKEN_BUCKET_LUA_SCRIPT (TokenBucketLimiter_get_key i) (of_int l)
                  (of_int l / of_int w) t (of_int w) (data rc)) = Inr (a, r, reset, retry)"
  shows "fst (TokenBucketLimiter_check rc i l w t) =
           Inr \<lparr>TokenBucketResult.allowed = (a \<noteq> 0), TokenBucketResult.remaining = r,
                TokenBucketResult.reset_in_seconds = reset,
                TokenBucketResult.retry_after = (if a = 0 then Some retry else None)\<rparr>"
  using assms
  by (auto simp: TokenBucketLimiter_check_def execute_lua_script_def client_available Let_def
           split: prod.splits sum.splits)

lemma rate_pos: "1 \<le> l \<Longrightarrow> 1 \<le> w \<Longrightarrow> (0::rat) < of_int l / of_int w"
  by simp

lemma tb_after_available: "available (tb_after k rc i l w t) = available rc"
  by (induction k) (simp_all add: tb_check_available)

text \<open>Numbers that \<open>tostring\<close> prints in full: the token counts of a bucket of fewer than
  fifteen digits.\<close>

lemma tostring_value_tokens:
  assumes "0 \<le> n" "n < 10 ^ 14"
  shows "tostring_value (of_int n) = of_int n"
  using assms by (intro tostring_value_of_int) simp

lemma tb_after_tokens:
  assumes "available rc" "data rc (TokenBucketLimiter_get_key i) = None" "1 \<le> l" "1 \<le> w"
    and "l < 10 ^ 14" "tostring_value t = t"
  shows "1 \<le> k \<Longrightarrow> int k \<le> l \<Longrightarrow>
         HMGET (TokenBucketLimiter_get_key i) ''tokens'' ''last_refill''
           (data (tb_after k rc i l w t)) = Inr (Some (of_int (l - int k)), Some t)"
proof (induction k)
  case 0
  then show ?case by simp
next
  case (Suc k)
  have w0: "w \<noteq> 0" using assms by simp
  have av: "available (tb_after k rc i l w t)" using assms by (simp add: tb_after_available)
  have rt: "tostring_value (of_int (l - int (Suc k))) = of_int (l - int (Suc k))"
    using Suc.prems assms(5) by (intro tostring_value_tokens) simp_all
  show ?case
  proof (cases "k = 0")
    case True
    have "(of_int l :: rat) - 1 = of_int (l - int (Suc k))" using True by simp
    then show ?thesis
      using tb_script_fresh(2)[where s = "data rc" and key = "TokenBucketLimiter_get_key i"
              and C = "of_int l" and r = "of_int l / of_int w" and now = t and w = "of_int w"]
            assms(1-4) assms(6) tb_check_data[OF assms(1) w0] rt True
      by simp
  next
    case False
    then have ih: "HMGET (TokenBucketLimiter_get_key i) ''tokens'' ''last_refill''
           (data (tb_after k rc i l w t)) = Inr (Some (of_int (l - int k)), Some t)"
      using Suc by simp
    have "1 \<le> l - int k" using Suc.prems by simp
    then have ge: "(1::rat) \<le> of_int (l - int k)" by (simp only: of_int_1_le_iff)
    have le: "(of_int (l - int k) :: rat) \<le> of_int l" by simp
    have eq: "(of_int (l - int k) :: rat) - 1 = of_int (l - int (Suc k))" by simp
    from tb_script_allowed(2)[where C = "of_int l" and w = "of_int w",
           OF ih le rate_pos[OF assms(3,4)] ge]
    show ?thesis using tb_check_data[OF av w0] rt assms(6) by (simp only: eq tb_after.simps)
  qed
qed

lemma tb_kth_allowed:
  assumes "available rc" "data rc (TokenBucketLimiter_get_key i) = None" "1 \<le> l" "1 \<le> w"
    and "l < 10 ^ 14" "tostring_value t = t"
    and "1 \<le> k" "int k \<le> l"
  shows "tb_outcome (tb_kth k rc i l w t) = Some (True, l - int k, None)"
proof -
  have w0: "w \<noteq> 0" using assms by simp
  obtain j where k: "k = Suc j" using assms(7) by (cases k) auto
  have av: "available (tb_after j rc i l w t)" using assms by (simp add: tb_after_available)
  show ?thesis
  proof (cases "j = 0")
    case True
    have "fst (TOKEN_BUCKET_LUA_SCRIPT (TokenBucketLimiter_get_key i) (of_int l)
                  (of_int l / of_int w) t (of_int w) (data rc)) =
            Inr (1, \<lfloor>(of_int l :: rat) - 1\<rfloor>, fmt3 (1 / (of_int l / of_int w)), 0)"
      using assms by (intro tb_script_fresh(1)) simp_all
    from tb_check_result[OF assms(1) w0 this] show ?thesis
      using True k by (simp add: tb_kth_def tb_outcome_def)
  next
    case False
    then have ih: "HMGET (TokenBucketLimiter_get_key i) ''tokens'' ''last_refill''
           (data (tb_after j rc i l w t)) = Inr (Some (of_int (l - int j)), Some t)"
      using tb_after_tokens[OF assms(1-6), of j] assms(8) k by simp
    have "1 \<le> l - int j" using assms(8) k by simp
    then have ge: "(1::rat) \<le> of_int (l - int j)" by (simp only: of_int_1_le_iff)
    have le: "(of_int (l - int j) :: rat) \<le> of_int l" by simp
    have "fst (TOKEN_BUCKET_LUA_SCRIPT (TokenBucketLimiter_get_key i) (of_int l)
                  (of_int l / of_int w) t (of_int w) (data (tb_after j rc i l w t))) =
            Inr (1, \<lfloor>(of_int (l - int j) :: rat) - 1\<rfloor>,
                 fmt3 ((of_int l - (of_int (l - int j) - 1)) / (of_int l / of_int w)), 0)"
      using assms(3,4) by (intro tb_script_allowed(1)[OF ih le _ ge]) simp_all
    from tb_check_result[OF av w0 this] have
      "tb_outcome (tb_kth k rc i l w t) = Some (True, \<lfloor>(of_int (l - int j) :: rat) - 1\<rfloor>, None)"
      using k by (simp add: tb_kth_def tb_outcome_def)
    moreover have "(of_int (l - int j) :: rat) - 1 = of_int (l - int k)" using k by simp
    ultimately show ?thesis by (simp only: floor_of_int)
  qed
qed

lemma tb_kth_denied:
  assumes "available rc" "data rc (TokenBucketLimiter_get_key i) = None" "1 \<le> l" "1 \<le> w"
    and "l < 10 ^ 14" "tostring_value t = t"
  shows "tb_outcome (tb_kth (nat l + 1) rc i l w t) =
           Some (False, 0, Some (fmt3 (of_int w / of_int l)))"
proof -
  have w0: "w \<noteq> 0" using assms by simp
  have av: "available (tb_after (nat l) rc i l w t)" using assms by (simp add: tb_after_available)
  have st: "HMGET (TokenBucketLimiter_get_key i) ''tokens'' ''last_refill''
           (data (tb_after (nat l) rc i l w t)) = Inr (Some 0, Some t)"
    using tb_after_tokens[OF assms(1-6), of "nat l"] assms(3) by simp
  have "fst (TOKEN_BUCKET_LUA_SCRIPT (TokenBucketLimiter_get_key i) (of_int l)
                  (of_int l / of_int w) t (of_int w) (data (tb_after (nat l) rc i l w t))) =
            Inr (0, \<lfloor>0::rat\<rfloor>, fmt3 ((of_int l - 0) / (of_int l / of_int w)),
                 fmt3 ((1 - 0) / (of_int l / of_int w)))"
    using assms(3,4) by (intro tb_script_denied(1)[OF st]) simp_all
  from tb_check_result[OF av w0 this] show ?thesis
    by (simp add: tb_kth_def tb_outcome_def)
qed

text \<open>What the first check of a fresh key leaves in the store.\<close>

lemma tb_after_1:
  assumes "available rc" "data rc (TokenBucketLimiter_get_key i) = None" "1 \<le> l" "1 \<le> w"
  shows "HMGET (TokenBucketLimiter_get_key i) ''tokens'' ''last_refill''
           (data (tb_after 1 rc i l w t))
           = Inr (Some (tostring_value (of_int l - 1)), Some (tostring_value t))"
proof -
  have w0: "w \<noteq> 0" using assms by simp
  show ?thesis
    using tb_script_fresh(2)[where s = "data rc" and key = "TokenBucketLimiter_get_key i"
            and C = "of_int l" and r = "of_int l / of_int w" and now = t and w = "of_int w"]
          assms tb_check_data[OF assms(1) w0]
    by simp
qed

lemma HMGET_stored_field:
  assumes "HMGET key f1 f2 (data rc) = Inr (a, b)"
  shows "stored_field rc key f1 = a" and "stored_field rc key f2 = b"
  using assms
  by (auto simp: HMGET_def stored_field_def split: option.splits redis_value.splits)

lemma zfirst_single: "zfirst [p] = Some p" by simp

lemma sw_script_fresh:
  assumes "s key = None" "1 \<le> l" "1 \<le> w"
  shows "fst (SLIDING_WINDOW_LUA_SCRIPT key l w now rnd s) = Inr (1, l - 1, of_int w, 0)"
  using assms
  by (simp add: SLIDING_WINDOW_LUA_SCRIPT_def ZREMRANGEBYSCORE_def ZCARD_def ZADD_def EXPIRE_def
        sw_reset_in_seconds_def ZRANGE_0_0_def Let_def)

lemma sw_check_fresh:
  assumes "available rc" "data rc (SlidingWindowLimiter_get_key i) = None" "1 \<le> l" "1 \<le> w"
  shows "fst (SlidingWindowLimiter_check rc i l w t rnd) =
           Inr \<lparr>SlidingWindowResult.allowed = True, SlidingWindowResult.remaining = l - 1,
                SlidingWindowResult.reset_in_seconds = of_int w,
                SlidingWindowResult.retry_after = None\<rparr>"
  using sw_script_fresh[where s = "data rc" and key = "SlidingWindowLimiter_get_key i"
          and l = l and w = w and now = "trunc (t * 1000)" and rnd = rnd] assms
  by (auto simp: SlidingWindowLimiter_check_def execute_lua_script_def client_available Let_def
           split: prod.splits sum.splits)

lemma tb_check_fresh:
  assumes "available rc" "data rc (TokenBucketLimiter_get_key i) = None" "1 \<le> l" "1 \<le> w"
  shows "fst (TokenBucketLimiter_check rc i l w t) =
           Inr \<lparr>TokenBucketResult.allowed = True, TokenBucketResult.remaining = l - 1,
                TokenBucketResult.reset_in_seconds = fmt3 (of_int w / of_int l),
                TokenBucketResult.retry_after = None\<rparr>"
proof -
  have w0: "w \<noteq> 0" using assms by simp
  have "fst (TOKEN_BUCKET_LUA_SCRIPT (TokenBucketLimiter_get_key i) (of_int l)
                  (of_int l / of_int w) t (of_int w) (data rc)) =
            Inr (1, \<lfloor>(of_int l :: rat) - 1\<rfloor>, fmt3 (1 / (of_int l / of_int w)), 0)"
    using assms by (intro tb_script_fresh(1)) simp_all
  moreover have "\<lfloor>(of_int l :: rat) - 1\<rfloor> = l - 1"
    by (metis floor_of_int of_int_1 of_int_diff)
  ultimately show ?thesis using tb_check_result[OF assms(1) w0] by simp
qed

lemma retry_le_reset:
  assumes "tk < 1" "1 \<le> (C::rat)" "0 < r"
  shows "fmt3 ((1 - tk) / r) \<le> fmt3 ((C - tk) / r)"
  using assms by (intro fmt3_mono divide_right_mono) simp_all

lemma tb_script_retry_le_reset:
  assumes ok: "fst (TOKEN_BUCKET_LUA_SCRIPT key C r now w s) = Inr (0, rem, reset, retry)"
    and C: "1 \<le> C" and r: "0 < r"
  shows "retry \<le> reset"
proof -
  have fresh: "\<not> 1 \<le> min C (C + (now - now) * r) \<Longrightarrow> False" using C by simp
  have known: "\<And>tk lr. \<not> 1 \<le> min C (tk + (now - lr) * r) \<Longrightarrow>
      fmt3 ((1 - min C (tk + (now - lr) * r)) / r) \<le> fmt3 ((C - min C (tk + (now - lr) * r)) / r) \<and>
      0 < C - min C (tk + (now - lr) * r)"
    using retry_le_reset[OF _ C r] C by (simp add: not_le min_def)
  show ?thesis using ok r C known
    by (auto simp: TOKEN_BUCKET_LUA_SCRIPT_def HMGET_def HSET_def Let_def
             split: option.splits redis_value.splits sum.splits if_splits)
qed

lemma trunc_of_int [simp]: "trunc (of_int n) = n"
  by (simp add: trunc_def)

lemma tb_status_fresh:
  assumes "available rc" "data rc (TokenBucketLimiter_get_key i) = None" "w \<noteq> 0"
  shows "TokenBucketLimiter_get_status rc i l w t =
           (Inr \<lparr>requests_used = 0, status_dict.remaining = l,
                 status_dict.reset_in_seconds = 0\<rparr>, rc)"
  using assms
  by (simp add: TokenBucketLimiter_get_status_def execute_lua_script_def client_available
        TOKEN_BUCKET_STATUS_LUA_SCRIPT_def HMGET_def Let_def)

lemma client_Inr: "client rc = Inr s \<Longrightarrow> s = data rc"
  by (auto simp: client_def split: if_splits option.splits)

lemma tb_status_readonly: "snd (TokenBucketLimiter_get_status rc i l w t) = rc"
  by (auto simp: TokenBucketLimiter_get_status_def execute_lua_script_def
        TOKEN_BUCKET_STATUS_LUA_SCRIPT_def HMGET_def Let_def
        split: sum.splits option.splits prod.splits redis_value.splits dest!: client_Inr)

lemma delete_key_available:
  assumes "available rc"
  shows "delete_key rc key = (Inr (data rc key \<noteq> None), rc\<lparr>data := (data rc)(key := None)\<rparr>)"
proof (cases "data rc key")
  case None
  then have "(data rc)(key := None) = data rc" by (simp add: fun_upd_idem)
  then show ?thesis using assms None
    by (simp add: delete_key_def client_available DEL_def)
next
  case (Some e)
  then show ?thesis using assms
    by (simp add: delete_key_def client_available DEL_def)
qed

lemma tb_check_Inr_available:
  assumes "fst (TokenBucketLimiter_check rc i l w t) = Inr res"
  shows "w \<noteq> 0" and "available rc"
  using assms
  by (auto simp: TokenBucketLimiter_check_def execute_lua_script_def client_def available_def
           Let_def split: prod.splits sum.splits if_splits option.splits)

lemma tb_check_error:
  assumes "available rc" "w \<noteq> 0"
    and "fst (TOKEN_BUCKET_LUA_SCRIPT (TokenBucketLimiter_get_key i) (of_int l)
                  (of_int l / of_int w) t (of_int w) (data rc)) = Inl e"
  shows "fst (TokenBucketLimiter_check rc i l w t) = Inl e"
  using assms
  by (auto simp: TokenBucketLimiter_check_def execute_lua_script_def client_available Let_def
           split: prod.splits sum.splits)

lemma tb_check_Inr:
  assumes "fst (TokenBucketLimiter_check rc i l w t) = Inr res"
  obtains a rem reset retry where
    "fst (TOKEN_BUCKET_LUA_SCRIPT (TokenBucketLimiter_get_key i) (of_int l)
            (of_int l / of_int w) t (of_int w) (data rc)) = Inr (a, rem, reset, retry)"
    "res = \<lparr>TokenBucketResult.allowed = (a \<noteq> 0), TokenBucketResult.remaining = rem,
            TokenBucketResult.reset_in_seconds = reset,
            TokenBucketResult.retry_after = (if a = 0 then Some retry else None)\<rparr>"
proof -
  note av = tb_check_Inr_available[OF assms]
  show ?thesis
  proof (cases "fst (TOKEN_BUCKET_LUA_SCRIPT (TokenBucketLimiter_get_key i) (of_int l)
            (of_int l / of_int w) t (of_int w) (data rc))")
    case (Inl e)
    then show ?thesis using tb_check_error[OF av(2,1) Inl] assms by simp
  next
    case (Inr reply)
    obtain a rem reset retry where r: "reply = (a, rem, reset, retry)" by (cases reply) auto
    show ?thesis using tb_check_result[OF av(2,1) Inr[unfolded r]] assms that Inr r by simp
  qed
qed

section \<open>The claims on the token bucket and on fresh state\<close>

text \<open>
  C3.  Against a store that answers, for a limit and a window of at least one, the first
  check of an identifier with no stored state is allowed and leaves \<open>limit - 1\<close>
  remaining, with no time to wait: for the token bucket and for the sliding window.
\<close>

theorem first_check_allowed:
  assumes "available rc" "1 \<le> limit" "1 \<le> window_seconds"
  shows "(data rc (TokenBucketLimiter_get_key identifier) = None \<longrightarrow>
            tb_outcome (fst (TokenBucketLimiter_check rc identifier limit window_seconds time))
              = Some (True, limit - 1, None)) \<and>
         (data rc (SlidingWindowLimiter_get_key identifier) = None \<longrightarrow>
            sw_outcome (fst (SlidingWindowLimiter_check rc identifier limit window_seconds time rnd))
              = Some (True, limit - 1, None))"
  using tb_check_fresh[OF assms(1) _ assms(2,3)] sw_check_fresh[OF assms(1) _ assms(2,3)]
  by (simp add: tb_outcome_def sw_outcome_def)

theorem first_check_allowed_witness:
  "available fresh_client \<and>
   tb_outcome (fst (TokenBucketLimiter_check fresh_client ''user_1'' 10 60 1000))
     = Some (True, 9, None) \<and>
   sw_outcome (fst (SlidingWindowLimiter_check fresh_client ''user_1'' 10 60 1000 7))
     = Some (True, 9, None)"
  using first_check_allowed[of fresh_client 10 60 "''user_1''" 1000 7]
  by (simp add: available_def fresh_client_def)

text \<open>
  C4, as amended.  Start from no stored state, with a limit of at least one and of fewer
  than fifteen digits and a window of at least one, and check again and again at one
  clock reading that \<open>tostring\<close> prints in full (a number of at most fourteen
  significant digits).  For \<open>1 \<le> k \<le> limit\<close> the \<open>k\<close>-th check is allowed with
  \<open>limit - k\<close> remaining; the next one is denied with nothing remaining and a time to
  wait that is not negative, is positive when \<open>limit < 2000 * window\<close>, and is zero when
  \<open>2000 * window < limit\<close>.
\<close>

theorem token_bucket_burst:
  assumes "available rc" "data rc (TokenBucketLimiter_get_key identifier) = None"
    and "1 \<le> limit" "1 \<le> window_seconds"
    and "limit < 10 ^ 14" "tostring_value time = time"
  shows "(\<forall>k. 1 \<le> k \<and> int k \<le> limit \<longrightarrow>
            tb_outcome (tb_kth k rc identifier limit window_seconds time)
              = Some (True, limit - int k, None)) \<and>
         (\<exists>ra. tb_outcome (tb_kth (nat limit + 1) rc identifier limit window_seconds time)
                 = Some (False, 0, Some ra) \<and>
               0 \<le> ra \<and>
               (limit < 2000 * window_seconds \<longrightarrow> 0 < ra) \<and>
               (2000 * window_seconds < limit \<longrightarrow> ra = 0))"
proof -
  have pos: "(0::rat) < of_int limit" using assms(3) by simp
  have a: "limit < 2000 * window_seconds \<Longrightarrow>
             (1::rat) / 2000 < of_int window_seconds / of_int limit"
  proof -
    assume "limit < 2000 * window_seconds"
    then have "(of_int limit :: rat) < of_int (2000 * window_seconds)"
      by (simp only: of_int_less_iff)
    then show ?thesis using pos by (simp add: field_simps)
  qed
  have b: "2000 * window_seconds < limit \<Longrightarrow>
             of_int window_seconds / of_int limit < (1::rat) / 2000"
  proof -
    assume "2000 * window_seconds < limit"
    then have "(of_int (2000 * window_seconds) :: rat) < of_int limit"
      by (simp only: of_int_less_iff)
    then show ?thesis using pos by (simp add: field_simps)
  qed
  have c: "(0::rat) \<le> of_int window_seconds / of_int limit" using assms(3,4) by simp
  have nonneg: "0 \<le> fmt3 (of_int window_seconds / of_int limit)"
    using fmt3_mono[OF c] by simp
  show ?thesis
    using tb_kth_allowed[OF assms] tb_kth_denied[OF assms] fmt3_pos[OF a] fmt3_small[OF c b]
          nonneg
    by blast
qed

theorem token_bucket_burst_witness:
  "available fresh_client \<and> data fresh_client (TokenBucketLimiter_get_key ''user_1'') = None \<and>
   tostring_value 1000 = 1000 \<and>
   tb_outcome (tb_kth 1 fresh_client ''user_1'' 5 60 1000) = Some (True, 4, None) \<and>
   tb_outcome (tb_kth 2 fresh_client ''user_1'' 5 60 1000) = Some (True, 3, None) \<and>
   tb_outcome (tb_kth 3 fresh_client ''user_1'' 5 60 1000) = Some (True, 2, None) \<and>
   tb_outcome (tb_kth 4 fresh_client ''user_1'' 5 60 1000) = Some (True, 1, None) \<and>
   tb_outcome (tb_kth 5 fresh_client ''user_1'' 5 60 1000) = Some (True, 0, None) \<and>
   (\<exists>ra. tb_outcome (tb_kth 6 fresh_client ''user_1'' 5 60 1000) = Some (False, 0, Some ra) \<and>
         0 < ra)"
proof -
  have a: "available fresh_client" by (simp add: available_def fresh_client_def)
  have f: "data fresh_client (TokenBucketLimiter_get_key ''user_1'') = None"
    by (simp add: fresh_client_def)
  have one: "(1::int) \<le> 5" "(1::int) \<le> 60" "(5::int) < 10 ^ 14" by simp_all
  have ts: "tostring_value 1000 = 1000" using tostring_value_of_int[of 1000] by simp
  note t = token_bucket_burst[OF a f one ts]
  have k: "\<And>k. 1 \<le> k \<Longrightarrow> int k \<le> 5 \<Longrightarrow>
             tb_outcome (tb_kth k fresh_client ''user_1'' 5 60 1000) = Some (True, 5 - int k, None)"
    using t by blast
  have d: "\<exists>ra. tb_outcome (tb_kth 6 fresh_client ''user_1'' 5 60 1000) = Some (False, 0, Some ra) \<and>
                0 < ra"
    using t by auto
  show ?thesis using a f ts k[of 1] k[of 2] k[of 3] k[of 4] k[of 5] d by simp
qed

text \<open>
  C4 as first stated fails in three ways.  With a limit of 2001 over a window of one
  second the check that follows 2001 allowed ones is denied with a time to wait of zero:
  1/2001 of a second is printed as \<open>0.000\<close>.  At the clock reading 1730000000.1234567
  the refill time is stored as 1730000000.1235, which is later, so that the second of
  two checks with limit 5 finds less than four tokens and leaves two remaining, not
  three.  With a limit of fifteen digits the token count itself is stored rounded.
\<close>

theorem token_bucket_burst_fails:
  "tb_outcome (tb_kth 2002 fresh_client ''user_1'' 2001 1 1000) = Some (False, 0, Some 0) \<and>
   tb_outcome (tb_kth 2 fresh_client ''user_1'' 5 60 (17300000001234567 / 10000000))
     = Some (True, 2, None) \<and>
   tb_outcome (tb_kth 2 fresh_client ''user_1'' 100000000000002 60 1000)
     = Some (True, 99999999999999, None)"
proof -
  have a: "available fresh_client" by (simp add: available_def fresh_client_def)
  have f: "data fresh_client (TokenBucketLimiter_get_key ''user_1'') = None"
    by (simp add: fresh_client_def)
  have ts: "tostring_value 1000 = 1000" using tostring_value_of_int[of 1000] by simp
  have "fmt3 (of_int 1 / of_int 2001) = 0" by (intro fmt3_small) simp_all
  then have c1: "tb_outcome (tb_kth 2002 fresh_client ''user_1'' 2001 1 1000)
                   = Some (False, 0, Some 0)"
    using tb_kth_denied[OF a f, of 2001 1 1000] ts by simp
  have av1: "available (tb_after 1 fresh_client ''user_1'' l w t)" for l w t
    using a by (simp only: tb_after_available)
  have s2: "HMGET (TokenBucketLimiter_get_key ''user_1'') ''tokens'' ''last_refill''
              (data (tb_after 1 fresh_client ''user_1'' 5 60 (17300000001234567 / 10000000)))
              = Inr (Some 4, Some (17300000001235 / 10000))"
    using tb_after_1[OF a f, of 5 60 "17300000001234567 / 10000000"]
          tostring_value_of_int[of 4] tostring_value_clock
    by simp
  have fl2: "\<lfloor>359999567 / 120000000 :: rat\<rfloor> = 2" by (simp add: floor_eq_iff)
  have c2: "tb_outcome (tb_kth 2 fresh_client ''user_1'' 5 60 (17300000001234567 / 10000000))
              = Some (True, 2, None)"
    using fl2 tb_check_result[OF av1, of 60 "''user_1''" 5 "17300000001234567 / 10000000" 5 60,
            OF _ tb_script_known(1)[OF s2, of "of_int 5" "of_int 5 / of_int 60"
                 "17300000001234567 / 10000000" "of_int 60", unfolded Let_def]]
    by (simp add: tb_kth_def tb_outcome_def)
  have s3: "HMGET (TokenBucketLimiter_get_key ''user_1'') ''tokens'' ''last_refill''
              (data (tb_after 1 fresh_client ''user_1'' 100000000000002 60 1000))
              = Inr (Some 100000000000000, Some 1000)"
    using tb_after_1[OF a f, of 100000000000002 60 1000] tostring_value_15_digits ts
    by simp
  have c3: "tb_outcome (tb_kth 2 fresh_client ''user_1'' 100000000000002 60 1000)
              = Some (True, 99999999999999, None)"
    using tb_check_result[OF av1, of 60 "''user_1''" 100000000000002 1000 100000000000002 60,
            OF _ tb_script_known(1)[OF s3, of "of_int 100000000000002"
                 "of_int 100000000000002 / of_int 60" 1000 "of_int 60", unfolded Let_def]]
    by (simp add: tb_kth_def tb_outcome_def)
  show ?thesis using c1 c2 c3 by simp
qed

text \<open>
  C2.  The claim is that under a clock that does not go backwards the persisted token
  count stays between zero and the capacity.  It fails for two checks at the one clock
  reading 1730000000.1234567, with capacity 1 and window 60: the first check stores the
  refill time as printed, 1730000000.1235, which is later than the clock; the second
  check therefore refills by a negative amount, is denied with \<open>-1\<close> remaining, and
  persists a token count below zero (about \<open>-7.2e-07\<close>).
\<close>

theorem token_bucket_tokens_negative:
  "stored_field (tb_after 1 fresh_client ''user_1'' 1 60 (17300000001234567 / 10000000))
     (TokenBucketLimiter_get_key ''user_1'') ''last_refill'' = Some (17300000001235 / 10000) \<and>
   tb_outcome (tb_kth 2 fresh_client ''user_1'' 1 60 (17300000001234567 / 10000000))
     = Some (False, - 1, Some 60) \<and>
   (\<exists>v. stored_field (tb_after 2 fresh_client ''user_1'' 1 60 (17300000001234567 / 10000000))
          (TokenBucketLimiter_get_key ''user_1'') ''tokens'' = Some v \<and>
        - 1 / 1000000 < v \<and> v < 0)"
proof -
  let ?t = "17300000001234567 / 10000000 :: rat"
  have a: "available fresh_client" by (simp add: available_def fresh_client_def)
  have f: "data fresh_client (TokenBucketLimiter_get_key ''user_1'') = None"
    by (simp add: fresh_client_def)
  have av1: "available (tb_after 1 fresh_client ''user_1'' 1 60 ?t)"
    using a by (simp only: tb_after_available)
  have s1: "HMGET (TokenBucketLimiter_get_key ''user_1'') ''tokens'' ''last_refill''
              (data (tb_after 1 fresh_client ''user_1'' 1 60 ?t))
              = Inr (Some 0, Some (17300000001235 / 10000))"
    using tb_after_1[OF a f, of 1 60 ?t] tostring_value_of_int[of 0] tostring_value_clock
    by simp
  have c1: "stored_field (tb_after 1 fresh_client ''user_1'' 1 60 ?t)
              (TokenBucketLimiter_get_key ''user_1'') ''last_refill''
              = Some (17300000001235 / 10000)"
    using HMGET_stored_field(2)[OF s1] .
  have f60: "fmt3 (600000433 / 10000000) = 60"
  proof -
    have "round_half_even (600000433 / 10000000 * 1000) = 60000"
      by (rule round_half_even_near) simp
    then show ?thesis by (simp add: fmt3_def)
  qed
  have fl1: "\<lfloor>- (433 / 600000000) :: rat\<rfloor> = - 1" by (simp add: floor_eq_iff)
  have c2: "tb_outcome (tb_kth 2 fresh_client ''user_1'' 1 60 ?t) = Some (False, - 1, Some 60)"
    using fl1 tb_check_result[OF av1, of 60 "''user_1''" 1 ?t,
            OF _ tb_script_known(1)[OF s1, of "of_int 1" "of_int 1 / of_int 60" ?t "of_int 60",
                 unfolded Let_def]]
          f60
    by (simp add: tb_kth_def tb_outcome_def)
  have "HMGET (TokenBucketLimiter_get_key ''user_1'') ''tokens'' ''last_refill''
          (data (tb_after 2 fresh_client ''user_1'' 1 60 ?t))
          = Inr (Some (tostring_value (- 433 / 600000000)), Some (tostring_value ?t))"
    using tb_script_known(2)[OF s1, of "of_int 1" "of_int 1 / of_int 60" ?t "of_int 60"]
          tb_check_data[OF av1, of 60 "''user_1''" 1 ?t]
    by (simp add: Let_def numeral_2_eq_2)
  then have c3: "stored_field (tb_after 2 fresh_client ''user_1'' 1 60 ?t)
              (TokenBucketLimiter_get_key ''user_1'') ''tokens'' = Some (- 72166666666667 / 10 ^ 20)"
    using HMGET_stored_field(1) tostring_value_negative by metis
  have "- 1 / 1000000 < (- 72166666666667 / 10 ^ 20 :: rat)" "(- 72166666666667 / 10 ^ 20 :: rat) < 0"
    by simp_all
  then have c4: "\<exists>v. stored_field (tb_after 2 fresh_client ''user_1'' 1 60 ?t)
              (TokenBucketLimiter_get_key ''user_1'') ''tokens'' = Some v \<and>
            - 1 / 1000000 < v \<and> v < 0"
    using c3 by blast
  show ?thesis using c1 c2 c4 by blast
qed

text \<open>
  C9.  For a capacity and a window of at least one, whatever the stored state, a
  token-bucket check that is denied returns a time to wait that is at most the time
  until the bucket is full again.
\<close>

theorem retry_after_le_reset_in_seconds:
  assumes "1 \<le> capacity" "1 \<le> window_seconds"
    and "fst (TokenBucketLimiter_check rc identifier capacity window_seconds time) = Inr res"
    and "\<not> TokenBucketResult.allowed res"
  shows "\<exists>ra. TokenBucketResult.retry_after res = Some ra \<and>
              ra \<le> TokenBucketResult.reset_in_seconds res"
proof -
  obtain rem reset retry a where
    ok: "fst (TOKEN_BUCKET_LUA_SCRIPT (TokenBucketLimiter_get_key identifier) (of_int capacity)
                (of_int capacity / of_int window_seconds) time (of_int window_seconds) (data rc))
           = Inr (a, rem, reset, retry)"
    and res: "res = \<lparr>TokenBucketResult.allowed = (a \<noteq> 0), TokenBucketResult.remaining = rem,
                  TokenBucketResult.reset_in_seconds = reset,
                  TokenBucketResult.retry_after = (if a = 0 then Some retry else None)\<rparr>"
    using tb_check_Inr[OF assms(3)] by metis
  have a0: "a = 0" using assms(4) res by simp
  have "retry \<le> reset"
    using assms(1,2) by (intro tb_script_retry_le_reset[OF ok[unfolded a0]]) simp_all
  then show ?thesis using res a0 by simp
qed

theorem retry_after_le_reset_in_seconds_witness:
  "(1::int) \<le> 5 \<and> (1::int) \<le> 60 \<and>
   fst (TokenBucketLimiter_check (bucket_client 0 100) ''user_1'' 5 60 100) =
     Inr \<lparr>TokenBucketResult.allowed = False, TokenBucketResult.remaining = 0,
          TokenBucketResult.reset_in_seconds = 60, TokenBucketResult.retry_after = Some 12\<rparr> \<and>
   (\<exists>ra. Some (12::rat) = Some ra \<and> ra \<le> 60)"
proof -
  have f: "fmt3 12 = 12" "fmt3 60 = 60" using fmt3_of_int[of 12] fmt3_of_int[of 60] by simp_all
  have r: "fst (TokenBucketLimiter_check (bucket_client 0 100) ''user_1'' 5 60 100) =
     Inr \<lparr>TokenBucketResult.allowed = False, TokenBucketResult.remaining = 0,
          TokenBucketResult.reset_in_seconds = 60, TokenBucketResult.retry_after = Some 12\<rparr>"
    by (simp add: TokenBucketLimiter_check_def TokenBucketLimiter_get_key_def bucket_client_def
          execute_lua_script_def client_def TOKEN_BUCKET_LUA_SCRIPT_def HMGET_def HSET_def
          EXPIRE_def Let_def f)
  show ?thesis
    using retry_after_le_reset_in_seconds[of 5 60 "bucket_client 0 100" "''user_1''" 100, OF _ _ r] r
    by simp
qed

section \<open>Status of an unseen bucket, and reset\<close>

lemma fresh_client_available: "available fresh_client"
  by (simp add: available_def fresh_client_def)

text \<open>
  C10.  Against a store that answers, for a limit and a window of at least one, the
  token-bucket status of an identifier with no stored state reports nothing used,
  \<open>limit\<close> remaining and a reset time of zero, and it leaves the store as it was: a
  check that follows still finds a fresh bucket.
\<close>

theorem status_of_unseen_bucket:
  assumes "available rc" "data rc (TokenBucketLimiter_get_key identifier) = None"
    and "1 \<le> limit" "1 \<le> window_seconds"
  shows "TokenBucketLimiter_get_status rc identifier limit window_seconds time =
           (Inr \<lparr>requests_used = 0, status_dict.remaining = limit,
                 status_dict.reset_in_seconds = 0\<rparr>, rc) \<and>
         tb_outcome (fst (TokenBucketLimiter_check
                            (snd (TokenBucketLimiter_get_status rc identifier limit
                                    window_seconds time))
                            identifier limit window_seconds time')) = Some (True, limit - 1, None)"
proof -
  have w0: "window_seconds \<noteq> 0" using assms(4) by simp
  show ?thesis
    using tb_status_fresh[OF assms(1,2) w0] tb_check_fresh[OF assms]
    by (simp add: tb_outcome_def)
qed

theorem status_of_unseen_bucket_witness:
  "available fresh_client \<and> data fresh_client (TokenBucketLimiter_get_key ''user_1'') = None \<and>
   TokenBucketLimiter_get_status fresh_client ''user_1'' 10 60 1000 =
     (Inr \<lparr>requests_used = 0, status_dict.remaining = 10,
           status_dict.reset_in_seconds = 0\<rparr>, fresh_client) \<and>
   tb_outcome (fst (TokenBucketLimiter_check
                      (snd (TokenBucketLimiter_get_status fresh_client ''user_1'' 10 60 1000))
                      ''user_1'' 10 60 1001)) = Some (True, 9, None)"
proof -
  have a: "available fresh_client" by (simp add: available_def fresh_client_def)
  have f: "data fresh_client (TokenBucketLimiter_get_key ''user_1'') = None"
    by (simp add: fresh_client_def)
  have one: "(1::int) \<le> 10" "(1::int) \<le> 60" by simp_all
  note t = status_of_unseen_bucket[OF a f one, where time = 1000 and time' = 1001]
  have t1: "TokenBucketLimiter_get_status fresh_client ''user_1'' 10 60 1000 =
     (Inr \<lparr>requests_used = 0, status_dict.remaining = 10,
           status_dict.reset_in_seconds = 0\<rparr>, fresh_client)"
    using t by blast
  have t2: "tb_outcome (fst (TokenBucketLimiter_check
                      (snd (TokenBucketLimiter_get_status fresh_client ''user_1'' 10 60 1000))
                      ''user_1'' 10 60 1001)) = Some (True, 9, None)"
    using conjunct2[OF t] by simp
  show ?thesis using a f t1 t2 by blast
qed

lemma tb_reset_available:
  assumes "available rc"
  shows "fst (TokenBucketLimiter_reset rc i) = Inr (data rc (TokenBucketLimiter_get_key i) \<noteq> None)"
    and "available (snd (TokenBucketLimiter_reset rc i))"
    and "data (snd (TokenBucketLimiter_reset rc i)) (TokenBucketLimiter_get_key i) = None"
  using assms delete_key_available[OF assms]
  by (simp_all add: TokenBucketLimiter_reset_def available_def)

lemma sw_reset_available:
  assumes "available rc"
  shows "fst (SlidingWindowLimiter_reset rc i) = Inr (data rc (SlidingWindowLimiter_get_key i) \<noteq> None)"
    and "available (snd (SlidingWindowLimiter_reset rc i))"
    and "data (snd (SlidingWindowLimiter_reset rc i)) (SlidingWindowLimiter_get_key i) = None"
  using assms delete_key_available[OF assms]
  by (simp_all add: SlidingWindowLimiter_reset_def available_def)

text \<open>
  C5.  Against a store that answers, for a limit and a window of at least one, and for
  both limiters: reset returns whether the identifier's key existed, and the check that
  follows returns what the same check returns on a client that has never seen the
  identifier, which is allowed with \<open>limit - 1\<close> remaining.
\<close>

theorem reset_then_check:
  assumes "available rc" "1 \<le> limit" "1 \<le> window_seconds"
  shows "fst (TokenBucketLimiter_reset rc identifier)
           = Inr (data rc (TokenBucketLimiter_get_key identifier) \<noteq> None) \<and>
         fst (TokenBucketLimiter_check (snd (TokenBucketLimiter_reset rc identifier))
                identifier limit window_seconds time)
           = fst (TokenBucketLimiter_check fresh_client identifier limit window_seconds time) \<and>
         tb_outcome (fst (TokenBucketLimiter_check (snd (TokenBucketLimiter_reset rc identifier))
                            identifier limit window_seconds time))
           = Some (True, limit - 1, None) \<and>
         fst (SlidingWindowLimiter_reset rc identifier)
           = Inr (data rc (SlidingWindowLimiter_get_key identifier) \<noteq> None) \<and>
         fst (SlidingWindowLimiter_check (snd (SlidingWindowLimiter_reset rc identifier))
                identifier limit window_seconds time rnd)
           = fst (SlidingWindowLimiter_check fresh_client identifier limit window_seconds time rnd) \<and>
         sw_outcome (fst (SlidingWindowLimiter_check (snd (SlidingWindowLimiter_reset rc identifier))
                            identifier limit window_seconds time rnd))
           = Some (True, limit - 1, None)"
proof -
  have f: "data fresh_client k = None" for k by (simp add: fresh_client_def)
  note tb = tb_reset_available[OF assms(1), where i = "identifier"]
  note sw = sw_reset_available[OF assms(1), where i = "identifier"]
  show ?thesis
    using tb(1) sw(1)
      tb_check_fresh[OF tb(2,3) assms(2,3)] tb_check_fresh[OF fresh_client_available f assms(2,3)]
      sw_check_fresh[OF sw(2,3) assms(2,3)] sw_check_fresh[OF fresh_client_available f assms(2,3)]
    by (simp add: tb_outcome_def sw_outcome_def)
qed

theorem reset_then_check_witness:
  "available (bucket_client 0 100) \<and>
   fst (TokenBucketLimiter_reset (bucket_client 0 100) ''user_1'') = Inr True \<and>
   tb_outcome (fst (TokenBucketLimiter_check
                      (snd (TokenBucketLimiter_reset (bucket_client 0 100) ''user_1''))
                      ''user_1'' 5 60 100)) = Some (True, 4, None) \<and>
   fst (SlidingWindowLimiter_reset (bucket_client 0 100) ''user_1'') = Inr False \<and>
   sw_outcome (fst (SlidingWindowLimiter_check
                      (snd (SlidingWindowLimiter_reset (bucket_client 0 100) ''user_1''))
                      ''user_1'' 5 60 100 7)) = Some (True, 4, None)"
proof -
  have a: "available (bucket_client 0 100)" by (simp add: available_def bucket_client_def)
  have k: "data (bucket_client 0 100) (TokenBucketLimiter_get_key ''user_1'') \<noteq> None"
    "data (bucket_client 0 100) (SlidingWindowLimiter_get_key ''user_1'') = None"
    by (simp_all add: bucket_client_def TokenBucketLimiter_get_key_def
          SlidingWindowLimiter_get_key_def)
  have one: "(1::int) \<le> 5" "(1::int) \<le> 60" by simp_all
  note t = reset_then_check[OF a one, of "''user_1''" 100 7]
  have c1: "fst (TokenBucketLimiter_reset (bucket_client 0 100) ''user_1'')
              = Inr (data (bucket_client 0 100) (TokenBucketLimiter_get_key ''user_1'') \<noteq> None)"
    using t by blast
  have c2: "tb_outcome (fst (TokenBucketLimiter_check
                      (snd (TokenBucketLimiter_reset (bucket_client 0 100) ''user_1''))
                      ''user_1'' 5 60 100)) = Some (True, 5 - 1, None)"
    using t by blast
  have c3: "fst (SlidingWindowLimiter_reset (bucket_client 0 100) ''user_1'')
              = Inr (data (bucket_client 0 100) (SlidingWindowLimiter_get_key ''user_1'') \<noteq> None)"
    using t by blast
  have c4: "sw_outcome (fst (SlidingWindowLimiter_check
                      (snd (SlidingWindowLimiter_reset (bucket_client 0 100) ''user_1''))
                      ''user_1'' 5 60 100 7)) = Some (True, 5 - 1, None)"
    using t by blast
  have t1: "fst (TokenBucketLimiter_reset (bucket_client 0 100) ''user_1'') = Inr True"
    using c1 k(1) by (simp del: not_None_eq)
  have t2: "tb_outcome (fst (TokenBucketLimiter_check
                      (snd (TokenBucketLimiter_reset (bucket_client 0 100) ''user_1''))
                      ''user_1'' 5 60 100)) = Some (True, 4, None)"
    using c2 by simp
  have t3: "fst (SlidingWindowLimiter_reset (bucket_client 0 100) ''user_1'') = Inr False"
    using c3 k(2) by (simp del: not_None_eq)
  have t4: "sw_outcome (fst (SlidingWindowLimiter_check
                      (snd (SlidingWindowLimiter_reset (bucket_client 0 100) ''user_1''))
                      ''user_1'' 5 60 100 7)) = Some (True, 4, None)"
    using c4 by simp
  show ?thesis using a t1 t2 t3 t4 by blast
qed

section \<open>Store errors\<close>

text \<open>
  C7.  For check, status and reset of both limiters: when the call to the store that the
  operation makes ends in an error, the operation ends in this same error, and so
  returns no result.  (The token-bucket check and status divide by the window before
  they call the store, hence the window is not zero when the store is called.)
\<close>

theorem store_errors_propagate:
  "(window_seconds \<noteq> 0 \<and>
    execute_lua_script rc
      (TOKEN_BUCKET_LUA_SCRIPT (TokenBucketLimiter_get_key identifier) (of_int limit)
         (of_int limit / of_int window_seconds) time (of_int window_seconds)) = (Inl e, rc')
    \<longrightarrow> TokenBucketLimiter_check rc identifier limit window_seconds time = (Inl e, rc')) \<and>
   (window_seconds \<noteq> 0 \<and>
    execute_lua_script rc
      (TOKEN_BUCKET_STATUS_LUA_SCRIPT (TokenBucketLimiter_get_key identifier) (of_int limit)
         (of_int limit / of_int window_seconds) time) = (Inl e, rc')
    \<longrightarrow> TokenBucketLimiter_get_status rc identifier limit window_seconds time = (Inl e, rc')) \<and>
   (delete_key rc (TokenBucketLimiter_get_key identifier) = (Inl e, rc')
    \<longrightarrow> TokenBucketLimiter_reset rc identifier = (Inl e, rc')) \<and>
   (execute_lua_script rc
      (SLIDING_WINDOW_LUA_SCRIPT (SlidingWindowLimiter_get_key identifier) limit window_seconds
         (trunc (time * 1000)) rnd) = (Inl e, rc')
    \<longrightarrow> SlidingWindowLimiter_check rc identifier limit window_seconds time rnd = (Inl e, rc')) \<and>
   (execute_lua_script rc
      (SLIDING_WINDOW_STATUS_LUA_SCRIPT (SlidingWindowLimiter_get_key identifier) limit
         window_seconds (trunc (time * 1000))) = (Inl e, rc')
    \<longrightarrow> SlidingWindowLimiter_get_status rc identifier limit window_seconds time = (Inl e, rc')) \<and>
   (delete_key rc (SlidingWindowLimiter_get_key identifier) = (Inl e, rc')
    \<longrightarrow> SlidingWindowLimiter_reset rc identifier = (Inl e, rc'))"
  by (simp add: TokenBucketLimiter_check_def TokenBucketLimiter_get_status_def
        TokenBucketLimiter_reset_def SlidingWindowLimiter_check_def
        SlidingWindowLimiter_get_status_def SlidingWindowLimiter_reset_def Let_def)

lemma failing_client_fails:
  "execute_lua_script (failing_client m) script = (Inl (RedisError m), failing_client m)"
  "delete_key (failing_client m) key = (Inl (RedisError m), failing_client m)"
  by (simp_all add: execute_lua_script_def delete_key_def client_def failing_client_def)

theorem store_errors_propagate_witness:
  "TokenBucketLimiter_check (failing_client ''Timeout reading from socket'') ''user_1'' 5 60 100
     = (Inl (RedisError ''Timeout reading from socket''),
        failing_client ''Timeout reading from socket'') \<and>
   TokenBucketLimiter_get_status (failing_client ''Timeout reading from socket'') ''user_1'' 5 60 100
     = (Inl (RedisError ''Timeout reading from socket''),
        failing_client ''Timeout reading from socket'') \<and>
   TokenBucketLimiter_reset (failing_client ''Timeout reading from socket'') ''user_1''
     = (Inl (RedisError ''Timeout reading from socket''),
        failing_client ''Timeout reading from socket'') \<and>
   SlidingWindowLimiter_check (failing_client ''Timeout reading from socket'') ''user_1'' 5 60 100 7
     = (Inl (RedisError ''Timeout reading from socket''),
        failing_client ''Timeout reading from socket'') \<and>
   SlidingWindowLimiter_get_status (failing_client ''Timeout reading from socket'') ''user_1'' 5 60 100
     = (Inl (RedisError ''Timeout reading from socket''),
        failing_client ''Timeout reading from socket'') \<and>
   SlidingWindowLimiter_reset (failing_client ''Timeout reading from socket'') ''user_1''
     = (Inl (RedisError ''Timeout reading from socket''),
        failing_client ''Timeout reading from socket'')"
  using store_errors_propagate
          [of 60 "failing_client ''Timeout reading from socket''" "''user_1''" 5 100
              "RedisError ''Timeout reading from socket''"
              "failing_client ''Timeout reading from socket''" 7]
  by (simp add: failing_client_fails)

section \<open>Resetting an identifier that has no state\<close>

text \<open>
  C8, as amended.  Against a store that answers, for an identifier with no stored state:
  the reset endpoint with no algorithm selected succeeds and returns its confirmation
  message, which carries no count; with an algorithm selected it raises the HTTP error
  404; the reset of each limiter returns \<open>False\<close>.
\<close>

theorem reset_endpoint_unseen:
  assumes "available rc"
    and "data rc (TokenBucketLimiter_get_key identifier) = None"
    and "data rc (SlidingWindowLimiter_get_key identifier) = None"
  shows "reset_rate_limit rc identifier None
           = (Inr \<lparr>message = ''Rate limit reset for '' @ identifier\<rparr>, rc) \<and>
         reset_rate_limit rc identifier (Some TOKEN_BUCKET)
           = (Inl (HTTPException 404 (''No rate limit data found for '' @ identifier)), rc) \<and>
         reset_rate_limit rc identifier (Some SLIDING_WINDOW)
           = (Inl (HTTPException 404 (''No rate limit data found for '' @ identifier)), rc) \<and>
         fst (TokenBucketLimiter_reset rc identifier) = Inr False \<and>
         fst (SlidingWindowLimiter_reset rc identifier) = Inr False"
proof -
  have d: "delete_key rc (TokenBucketLimiter_get_key identifier) = (Inr False, rc)"
    "delete_key rc (SlidingWindowLimiter_get_key identifier) = (Inr False, rc)"
    using assms by (simp_all add: delete_key_def client_available DEL_def)
  show ?thesis
    by (simp add: reset_rate_limit_def reset_selected_def TokenBucketLimiter_reset_def
          SlidingWindowLimiter_reset_def d)
qed

theorem reset_endpoint_unseen_witness:
  "available fresh_client \<and>
   reset_rate_limit fresh_client ''user_1'' None
     = (Inr \<lparr>message = ''Rate limit reset for user_1''\<rparr>, fresh_client) \<and>
   reset_rate_limit fresh_client ''user_1'' (Some SLIDING_WINDOW)
     = (Inl (HTTPException 404 ''No rate limit data found for user_1''), fresh_client)"
proof -
  have f: "data fresh_client k = None" for k by (simp add: fresh_client_def)
  show ?thesis
    using fresh_client_available reset_endpoint_unseen[OF fresh_client_available f f, of "''user_1''"]
    by simp
qed

text \<open>
  C8 as first stated asks for a success that reports a count of zero.  Resetting only the
  token bucket of an identifier that has no state is an error instead.
\<close>

theorem reset_endpoint_not_found:
  "reset_rate_limit fresh_client ''user_1'' (Some TOKEN_BUCKET)
     = (Inl (HTTPException 404 ''No rate limit data found for user_1''), fresh_client)"
  by (simp add: reset_rate_limit_def reset_selected_def TokenBucketLimiter_reset_def
        delete_key_def client_def DEL_def fresh_client_def)

section \<open>Status calls and later checks\<close>

lemma prune_entry_absorb: "c \<le> c' \<Longrightarrow> prune_entry c' (prune_entry c eo) = prune_entry c' eo"
proof -
  assume le: "c \<le> c'"
  have ff: "filter (\<lambda>p. c' < snd p) (filter (\<lambda>p. c < snd p) z) = filter (\<lambda>p. c' < snd p) z"
    for z :: zset
    using le by (induction z) auto
  have fe: "filter (\<lambda>p. c < snd p) z = [] \<Longrightarrow> filter (\<lambda>p. c' < snd p) z = []" for z :: zset
    using ff[of z] by (metis filter.simps(1))
  show ?thesis
    by (auto simp: prune_entry_def ff fe simp del: filter_filter
             split: option.splits redis_value.splits)
qed

lemma ZREMRANGEBYSCORE_prune:
  "ZREMRANGEBYSCORE key c s =
     (case s key of
        None \<Rightarrow> Inr s
      | Some e \<Rightarrow> (case val e of Hash h \<Rightarrow> Inl WRONGTYPE
                   | ZSet z \<Rightarrow> Inr (s(key := prune_entry c (s key)))))"
  by (auto simp: ZREMRANGEBYSCORE_def prune_entry_def Let_def split: option.splits redis_value.splits)

lemma ZREMRANGEBYSCORE_absorb:
  assumes "c \<le> c'"
  shows "ZREMRANGEBYSCORE key c' (s(key := prune_entry c (s key))) = ZREMRANGEBYSCORE key c' s"
proof (cases "s key")
  case None
  then have "s(key := prune_entry c (s key)) = s" by (simp add: prune_entry_def fun_upd_idem)
  then show ?thesis by simp
next
  case (Some e)
  show ?thesis
  proof (cases "val e")
    case (Hash h)
    then have "s(key := prune_entry c (s key)) = s"
      using Some by (simp add: prune_entry_def fun_upd_idem)
    then show ?thesis by simp
  next
    case (ZSet z)
    have "prune_entry c' (prune_entry c (s key)) = prune_entry c' (s key)"
      using prune_entry_absorb[OF assms] .
    then show ?thesis using Some ZSet
      by (auto simp: ZREMRANGEBYSCORE_prune prune_entry_def
               split: option.splits redis_value.splits if_splits)
  qed
qed

lemma sw_script_absorb:
  assumes "c \<le> now - w * 1000"
  shows "SLIDING_WINDOW_LUA_SCRIPT key l w now rnd (s(key := prune_entry c (s key)))
           = SLIDING_WINDOW_LUA_SCRIPT key l w now rnd s"
proof (cases "\<exists>e h. s key = Some e \<and> val e = Hash h")
  case True
  then have "s(key := prune_entry c (s key)) = s" by (auto simp: prune_entry_def fun_upd_idem)
  then show ?thesis by simp
next
  case False
  then have "\<exists>s'. ZREMRANGEBYSCORE key (now - w * 1000) s = Inr s'"
    by (auto simp: ZREMRANGEBYSCORE_def Let_def split: option.splits redis_value.splits)
  then show ?thesis
    using ZREMRANGEBYSCORE_absorb[OF assms, of key s]
    by (auto simp: SLIDING_WINDOW_LUA_SCRIPT_def Let_def)
qed

lemma sw_status_script_store:
  "snd (SLIDING_WINDOW_STATUS_LUA_SCRIPT key l w now s)
     = s(key := prune_entry (now - w * 1000) (s key))"
proof (cases "s key")
  case None
  then show ?thesis
    by (simp add: SLIDING_WINDOW_STATUS_LUA_SCRIPT_def ZREMRANGEBYSCORE_def ZCARD_def
          sw_reset_in_seconds_def ZRANGE_0_0_def prune_entry_def fun_upd_idem)
next
  case (Some e)
  show ?thesis
  proof (cases "val e")
    case (Hash h)
    then show ?thesis using Some
      by (simp add: SLIDING_WINDOW_STATUS_LUA_SCRIPT_def ZREMRANGEBYSCORE_def prune_entry_def
            fun_upd_idem)
  next
    case (ZSet z)
    then show ?thesis using Some
      by (auto simp: SLIDING_WINDOW_STATUS_LUA_SCRIPT_def ZREMRANGEBYSCORE_def ZCARD_def
            sw_reset_in_seconds_def ZRANGE_0_0_def prune_entry_def Let_def
            split: option.splits sum.splits)
  qed
qed

lemma exec_available:
  "available rc \<Longrightarrow>
     execute_lua_script rc f = (fst (f (data rc)), rc\<lparr>data := snd (f (data rc))\<rparr>)"
  by (simp add: execute_lua_script_def client_available split: prod.splits)

lemma exec_unavailable:
  "\<not> available rc \<Longrightarrow>
     execute_lua_script rc f =
       (Inl (if \<not> initialized rc
             then RuntimeError ''Redis client not initialized. Call connect() first.''
             else RedisError (the (fault rc))), rc)"
  by (auto simp: execute_lua_script_def client_def available_def split: option.splits)

lemma sw_check_unfold:
  assumes "available rc"
  shows "SlidingWindowLimiter_check rc i l w t rnd =
           (case fst (SLIDING_WINDOW_LUA_SCRIPT (SlidingWindowLimiter_get_key i) l w
                        (trunc (t * 1000)) rnd (data rc)) of
              Inl e \<Rightarrow> Inl e
            | Inr (a, r, reset, retry) \<Rightarrow>
                Inr \<lparr>SlidingWindowResult.allowed = (a \<noteq> 0), SlidingWindowResult.remaining = r,
                     SlidingWindowResult.reset_in_seconds = reset,
                     SlidingWindowResult.retry_after = (if a = 0 then Some retry else None)\<rparr>,
            rc\<lparr>data := snd (SLIDING_WINDOW_LUA_SCRIPT (SlidingWindowLimiter_get_key i) l w
                              (trunc (t * 1000)) rnd (data rc))\<rparr>)"
  using assms
  by (auto simp: SlidingWindowLimiter_check_def exec_available Let_def split: sum.splits prod.splits)

lemma sw_status_client:
  "snd (SlidingWindowLimiter_get_status rc i l w t) =
     (if available rc
      then rc\<lparr>data := (data rc)(SlidingWindowLimiter_get_key i :=
               prune_entry (trunc (t * 1000) - w * 1000)
                 (data rc (SlidingWindowLimiter_get_key i)))\<rparr>
      else rc)"
proof (cases "available rc")
  case True
  then show ?thesis
    using sw_status_script_store[of "SlidingWindowLimiter_get_key i" l w "trunc (t * 1000)" "data rc"]
    by (auto simp: SlidingWindowLimiter_get_status_def exec_available Let_def
             split: prod.splits sum.splits)
next
  case False
  then show ?thesis
    by (simp add: SlidingWindowLimiter_get_status_def exec_unavailable)
qed

text \<open>
  Where a sliding-window status call does no harm: when the window it prunes to starts no
  later than the window of the check of the same identifier that follows it, as when
  both use one window and the clock has not gone backwards, that check returns the same
  result and leaves the same store as without the status call.  The token-bucket status
  call never changes the client (\<open>tb_status_readonly\<close>).
\<close>

lemma sw_status_then_check:
  assumes "trunc (t1 * 1000) - w1 * 1000 \<le> trunc (t2 * 1000) - w2 * 1000"
  shows "SlidingWindowLimiter_check (snd (SlidingWindowLimiter_get_status rc i l1 w1 t1))
           i l2 w2 t2 rnd
         = SlidingWindowLimiter_check rc i l2 w2 t2 rnd"
proof (cases "available rc")
  case False
  then show ?thesis by (simp add: sw_status_client)
next
  case True
  let ?k = "SlidingWindowLimiter_get_key i"
  let ?rc' = "rc\<lparr>data := (data rc)(?k := prune_entry (trunc (t1 * 1000) - w1 * 1000)
                                         (data rc ?k))\<rparr>"
  have av: "available ?rc'" using True by (simp add: available_def)
  show ?thesis
    using sw_script_absorb[OF assms, of ?k l2 rnd "data rc"]
    by (simp add: sw_status_client True sw_check_unfold[OF av] sw_check_unfold[OF True])
qed

lemma fmt3_60: "fmt3 60 = 60" and fmt3_57: "fmt3 57 = 57"
  using fmt3_of_int[of 60] fmt3_of_int[of 57] by simp_all

text \<open>
  C6.  The claim is that no status call changes the result of a later check.  It fails
  for the sliding window: on an empty store, a check with limit 1 and a window of sixty
  seconds at clock reading 1000 stores its entry; a status call with a window of one
  second at 1002 removes that entry; the check with limit 1 and a window of sixty seconds
  at 1003 is then allowed, where without the status call it is denied with 57 seconds
  to wait.
\<close>

theorem status_with_shorter_window_changes_check:
  "run fresh_client
     [Check SLIDING_WINDOW ''user_1'' 1 60 1000 1, Status SLIDING_WINDOW ''user_1'' 1 1 1002,
      Check SLIDING_WINDOW ''user_1'' 1 60 1003 2]
   = [WindowResult (Inr \<lparr>SlidingWindowResult.allowed = True, SlidingWindowResult.remaining = 0,
                        SlidingWindowResult.reset_in_seconds = 60,
                        SlidingWindowResult.retry_after = None\<rparr>),
      WindowResult (Inr \<lparr>SlidingWindowResult.allowed = True, SlidingWindowResult.remaining = 0,
                        SlidingWindowResult.reset_in_seconds = 60,
                        SlidingWindowResult.retry_after = None\<rparr>)] \<and>
   run fresh_client
     [Check SLIDING_WINDOW ''user_1'' 1 60 1000 1, Check SLIDING_WINDOW ''user_1'' 1 60 1003 2]
   = [WindowResult (Inr \<lparr>SlidingWindowResult.allowed = True, SlidingWindowResult.remaining = 0,
                        SlidingWindowResult.reset_in_seconds = 60,
                        SlidingWindowResult.retry_after = None\<rparr>),
      WindowResult (Inr \<lparr>SlidingWindowResult.allowed = False, SlidingWindowResult.remaining = 0,
                        SlidingWindowResult.reset_in_seconds = 57,
                        SlidingWindowResult.retry_after = Some 57\<rparr>)]"
  by (simp add: SlidingWindowLimiter_check_def SlidingWindowLimiter_get_status_def
        SlidingWindowLimiter_get_key_def execute_lua_script_def client_def fresh_client_def
        SLIDING_WINDOW_LUA_SCRIPT_def SLIDING_WINDOW_STATUS_LUA_SCRIPT_def
        ZREMRANGEBYSCORE_def ZCARD_def ZADD_def ZRANGE_0_0_def EXPIRE_def
        sw_reset_in_seconds_def trunc_def Let_def fmt3_60 fmt3_57)

end
